(* ===== verification/Go_Prelude.thy ===== *)
theory Go_Prelude
  imports Complex_Main "HOL-Library.Word"
begin

text \<open>
  The shared ground of the development: Go's machine integers, \<open>time.Time\<close> and
  \<open>time.Duration\<close>, \<open>float64\<close>, the conversions between numbers and text that the ingest
  service uses (\<open>strconv.Itoa\<close>, \<open>encoding/hex\<close>), and the generic facts about lists and
  options the component theories share. Strings are Go strings: lists of bytes.
\<close>

named_theorems go_time_simps "conversions between the readings of one instant"
named_theorems go_string_simps "evaluation of the Go string helpers on concrete text"

section \<open>Machine integers\<close>

type_synonym int64 = "64 word"
type_synonym uint64 = "64 word"
type_synonym uint8 = "8 word"

text \<open>Go's saturation of a \<open>time.Duration\<close> (an \<open>int64\<close>) in \<open>Time.Sub\<close>.\<close>

definition sat64 :: "int \<Rightarrow> int" where
  "sat64 x = max (- (2 ^ 63)) (min (2 ^ 63 - 1) x)"

lemma sat64_gt_iff: "- (2 ^ 63) \<le> c \<Longrightarrow> c < 2 ^ 63 - 1 \<Longrightarrow> c < sat64 x \<longleftrightarrow> c < x"
  by (auto simp: sat64_def)

lemma sat64_ge_iff: "- (2 ^ 63) < c \<Longrightarrow> c \<le> 2 ^ 63 - 1 \<Longrightarrow> c \<le> sat64 x \<longleftrightarrow> c \<le> x"
  by (auto simp: sat64_def)

lemma sat64_id: "- (2 ^ 63) \<le> x \<Longrightarrow> x < 2 ^ 63 \<Longrightarrow> sat64 x = x"
  by (auto simp: sat64_def)

lemma sint_int64: "- (2 ^ 63) \<le> x \<Longrightarrow> x < 2 ^ 63 \<Longrightarrow> sint (word_of_int x :: int64) = x"
  by (simp add: signed_of_int signed_take_bit_int_eq_self)

lemma sint_int64_range: "- (2 ^ 63) \<le> sint (w :: int64) \<and> sint w < 2 ^ 63"
  using sint_ge [of w] sint_lt [of w] by simp

section \<open>Instants and durations\<close>

text \<open>
  A \<open>time.Time\<close> is the number of nanoseconds since the Unix epoch. The code reads the clock
  through \<open>time.Now().UTC()\<close>, which strips the monotonic reading, so a wall-clock number is
  all there is. A \<open>time.Duration\<close> is a number of nanoseconds.
\<close>

type_synonym gotime = int
type_synonym duration = int

abbreviation Millisecond :: duration where "Millisecond \<equiv> 1000000"
abbreviation Second :: duration where "Second \<equiv> 1000000000"
abbreviation Minute :: duration where "Minute \<equiv> 60000000000"
abbreviation Hour :: duration where "Hour \<equiv> 3600000000000"
abbreviation Day24h :: duration where "Day24h \<equiv> 86400000000000"

text \<open>The zero \<open>time.Time\<close>: January 1, year 1, 00:00 UTC.\<close>

definition zero_time :: gotime where
  "zero_time = - 62135596800000000000"

definition time_Sub :: "gotime \<Rightarrow> gotime \<Rightarrow> duration" where
  "time_Sub t u = sat64 (t - u)"

definition time_UnixMilli :: "int64 \<Rightarrow> gotime" where
  "time_UnixMilli ms = sint ms * Millisecond"

definition UnixMilli :: "gotime \<Rightarrow> int64" where
  "UnixMilli t = word_of_int (t div Millisecond)"

definition Unix :: "gotime \<Rightarrow> int" where
  "Unix t = t div Second"

text \<open>\<open>Time.Truncate\<close> rounds down to a multiple of \<open>d\<close> since the zero time.\<close>

definition Truncate :: "gotime \<Rightarrow> duration \<Rightarrow> gotime" where
  "Truncate t d = t - (t - zero_time) mod d"

text \<open>\<open>int(d.Seconds())\<close>: Go's conversion truncates towards zero.\<close>

definition whole_seconds :: "duration \<Rightarrow> int" where
  "whole_seconds d = (if 0 \<le> d then d div Second else - ((- d) div Second))"

lemma time_Sub_gt [go_time_simps]:
  "- (2 ^ 63) \<le> c \<Longrightarrow> c < 2 ^ 63 - 1 \<Longrightarrow> c < time_Sub t u \<longleftrightarrow> c < t - u"
  by (simp add: time_Sub_def sat64_gt_iff)

lemma time_Sub_ge [go_time_simps]:
  "- (2 ^ 63) < c \<Longrightarrow> c \<le> 2 ^ 63 - 1 \<Longrightarrow> c \<le> time_Sub t u \<longleftrightarrow> c \<le> t - u"
  by (simp add: time_Sub_def sat64_ge_iff)

lemma Truncate_day: "Truncate t Day24h = (t div Day24h) * Day24h"
proof -
  have "t - zero_time = t + 719162 * Day24h"
    by (simp add: zero_time_def)
  then have "(t - zero_time) mod Day24h = t mod Day24h"
    by (simp only: mod_mult_self1)
  then show ?thesis
    by (simp add: Truncate_def minus_mod_eq_div_mult)
qed

section \<open>Floating point\<close>

text \<open>
  A \<open>float64\<close>: a finite value (a rational), an infinity or a NaN. Only classification,
  equality and conversion to an integer occur in the code.
\<close>

datatype float64 = Fin rat | PosInf | NegInf | NaN

definition IsNaN :: "float64 \<Rightarrow> bool" where
  "IsNaN x \<longleftrightarrow> x = NaN"

text \<open>\<open>math.IsInf(x, 0)\<close>: either infinity.\<close>

definition IsInf :: "float64 \<Rightarrow> bool" where
  "IsInf x \<longleftrightarrow> x = PosInf \<or> x = NegInf"

fun finite_float :: "float64 \<Rightarrow> bool" where
  "finite_float (Fin _) = True"
| "finite_float _ = False"

lemma finite_float_iff: "finite_float x \<longleftrightarrow> \<not> IsNaN x \<and> \<not> IsInf x"
  by (cases x) (auto simp: IsNaN_def IsInf_def)

text \<open>
  \<open>int(x)\<close> of a \<open>float64\<close> drops the fraction. Go leaves the result implementation-dependent
  when \<open>x\<close> does not fit an \<open>int\<close>; \<open>oor\<close> stands for that choice.
\<close>

fun int_of_float :: "(float64 \<Rightarrow> int) \<Rightarrow> float64 \<Rightarrow> int" where
  "int_of_float oor (Fin q) =
     (let i = (if 0 \<le> q then \<lfloor>q\<rfloor> else \<lceil>q\<rceil>)
      in if - (2 ^ 63) \<le> i \<and> i < 2 ^ 63 then i else oor (Fin q))"
| "int_of_float oor x = oor x"

text \<open>\<open>float64(i) != x\<close> for an \<open>int\<close> of small magnitude; a NaN differs from everything.\<close>

fun float_ne_int :: "int \<Rightarrow> float64 \<Rightarrow> bool" where
  "float_ne_int i (Fin q) = (rat_of_int i \<noteq> q)"
| "float_ne_int i _ = True"

section \<open>Numbers and text\<close>

definition digit :: "nat \<Rightarrow> char" where
  "digit d = char_of (48 + d)"

lemma of_char_digit: "d < 10 \<Longrightarrow> of_char (digit d) = (48 + d :: nat)"
  unfolding digit_def of_char_of by (rule mod_less) arith

lemma digit_inject: "d < 10 \<Longrightarrow> e < 10 \<Longrightarrow> digit d = digit e \<longleftrightarrow> d = e"
  by (metis add_left_cancel of_char_digit)

fun udec :: "nat \<Rightarrow> string" where
  "udec n = (if n < 10 then [digit n] else udec (n div 10) @ [digit (n mod 10)])"

declare udec.simps [simp del]

text \<open>\<open>strconv.Itoa\<close> and the verb \<open>%d\<close>.\<close>

definition itoa :: "int \<Rightarrow> string" where
  "itoa i = (if i < 0 then CHR ''-'' # udec (nat (- i)) else udec (nat i))"

definition digit_val :: "char \<Rightarrow> nat option" where
  "digit_val c = (let k = of_char c :: nat in if 48 \<le> k \<and> k < 58 then Some (k - 48) else None)"

lemma digit_val_digit [simp]: "d < 10 \<Longrightarrow> digit_val (digit d) = Some d"
  by (simp add: digit_val_def of_char_digit)

fun atou :: "nat \<Rightarrow> string \<Rightarrow> nat option" where
  "atou a [] = Some a"
| "atou a (c # s) = (case digit_val c of None \<Rightarrow> None | Some d \<Rightarrow> atou (10 * a + d) s)"

text \<open>Reading a decimal integer back, as Redis and Lua do with the text of a counter.\<close>

definition atoi :: "string \<Rightarrow> int option" where
  "atoi s = (case s of
      [] \<Rightarrow> None
    | c # r \<Rightarrow> if c = CHR ''-'' then (if r = [] then None else map_option (\<lambda>n. - int n) (atou 0 r))
              else map_option int (atou 0 s))"

lemma atou_append: "atou a (s @ t) = (case atou a s of None \<Rightarrow> None | Some b \<Rightarrow> atou b t)"
  by (induction s arbitrary: a) (auto split: option.splits)

lemma atou_udec: "atou 0 (udec n) = Some n"
proof (induction n rule: udec.induct)
  case (1 n)
  show ?case
  proof (cases "n < 10")
    case True
    then show ?thesis by (subst udec.simps) simp
  next
    case False
    with 1 show ?thesis by (subst udec.simps) (simp add: atou_append)
  qed
qed

lemma udec_not_Nil [simp]: "udec n \<noteq> []"
  by (subst udec.simps) simp

lemma udec_digits: "c \<in> set (udec n) \<Longrightarrow> digit_val c \<noteq> None"
proof (induction n rule: udec.induct)
  case (1 n)
  then show ?case
    by (cases "n < 10") (auto simp: udec.simps [of n])
qed

lemma udec_inject [simp]: "udec m = udec n \<longleftrightarrow> m = n"
  by (metis atou_udec option.inject)

lemma digit_val_minus [simp]: "digit_val CHR ''-'' = None"
  by (simp add: digit_val_def)

lemma digit_val_colon [simp]: "digit_val CHR '':'' = None"
  by (simp add: digit_val_def)

lemma atoi_itoa [simp]: "atoi (itoa i) = Some i"
proof (cases "i < 0")
  case True
  then show ?thesis by (simp add: itoa_def atoi_def atou_udec)
next
  case False
  obtain c r where u: "udec (nat i) = c # r" by (cases "udec (nat i)") auto
  then have "c \<noteq> CHR ''-''"
    using udec_digits [of c "nat i"] by auto
  then have "atoi (udec (nat i)) = map_option int (atou 0 (udec (nat i)))"
    by (simp add: atoi_def u)
  with False show ?thesis by (simp add: itoa_def atou_udec)
qed

lemma itoa_inject [simp]: "itoa i = itoa j \<longleftrightarrow> i = j"
  by (metis atoi_itoa option.inject)

lemma itoa_not_Nil [simp]: "itoa i \<noteq> []"
  by (simp add: itoa_def)

lemma itoa_no_colon: "CHR '':'' \<notin> set (itoa i)"
proof
  assume "CHR '':'' \<in> set (itoa i)"
  then have "\<exists>n. CHR '':'' \<in> set (udec n)"
    by (auto simp: itoa_def split: if_splits)
  then show False using udec_digits by force
qed

text \<open>Zero-padded decimals, as \<open>Time.Format\<close> writes years, months and days.\<close>

definition pad_left :: "nat \<Rightarrow> string \<Rightarrow> string" where
  "pad_left w s = replicate (w - length s) (CHR ''0'') @ s"

section \<open>Hexadecimal text\<close>

definition hex_digit :: "nat \<Rightarrow> char" where
  "hex_digit d = (if d < 10 then char_of (48 + d) else char_of (87 + d))"

definition hex_byte :: "char \<Rightarrow> string" where
  "hex_byte c = (let k = of_char c :: nat in [hex_digit (k div 16), hex_digit (k mod 16)])"

text \<open>\<open>hex.EncodeToString\<close>.\<close>

definition hex_EncodeToString :: "string \<Rightarrow> string" where
  "hex_EncodeToString s = concat (map hex_byte s)"

lemma of_char_hex_digit:
  "d < 16 \<Longrightarrow> of_char (hex_digit d) = (if d < 10 then 48 + d else 87 + d :: nat)"
  unfolding hex_digit_def if_distrib [of of_char] of_char_of by (auto intro!: mod_less)

lemma hex_digit_inject:
  assumes "d < 16" "e < 16" "hex_digit d = hex_digit e"
  shows "d = e"
proof -
  have "(if d < 10 then 48 + d else 87 + d) = (if e < 10 then 48 + e else 87 + e)"
    by (metis assms of_char_hex_digit)
  with assms(1,2) show ?thesis by (simp split: if_splits)
qed

lemma of_char_less_256 [simp]: "of_char c < (256 :: nat)"
  using of_char_of [of "of_char c :: nat"]
  by (metis char_of_char mod_less_divisor zero_less_numeral)

lemma hex_byte_inject: "hex_byte c = hex_byte d \<longleftrightarrow> c = d"
proof
  let ?c = "of_char c :: nat" and ?d = "of_char d :: nat"
  assume "hex_byte c = hex_byte d"
  then have h: "hex_digit (?c div 16) = hex_digit (?d div 16)"
    "hex_digit (?c mod 16) = hex_digit (?d mod 16)"
    by (simp_all add: hex_byte_def Let_def)
  have lt: "?c div 16 < 16" "?d div 16 < 16"
    by (simp_all add: less_mult_imp_div_less)
  have "?c div 16 = ?d div 16" "?c mod 16 = ?d mod 16"
    using hex_digit_inject h lt by auto
  then have "?c = ?d" by (metis div_mult_mod_eq)
  then show "c = d" by simp
qed simp

lemma length_hex [simp]: "length (hex_EncodeToString s) = 2 * length s"
  by (induction s) (simp_all add: hex_EncodeToString_def hex_byte_def Let_def)

lemma hex_inject: "hex_EncodeToString s = hex_EncodeToString t \<longleftrightarrow> s = t"
proof (induction s arbitrary: t)
  case Nil
  then show ?case by (cases t) (simp_all add: hex_EncodeToString_def hex_byte_def Let_def)
next
  case (Cons c s)
  show ?case
  proof (cases t)
    case Nil
    then show ?thesis by (simp add: hex_EncodeToString_def hex_byte_def Let_def)
  next
    case (Cons d t')
    have len: "length (hex_byte c) = length (hex_byte d)"
      by (simp add: hex_byte_def Let_def)
    with Cons.IH [of t'] Cons show ?thesis
      by (simp add: hex_EncodeToString_def append_eq_append_conv hex_byte_inject)
  qed
qed

lemma hex_digit_plain:
  assumes "d < 16"
  shows "hex_digit d \<noteq> CHR '':'' \<and> hex_digit d \<noteq> CHR ''}''"
proof -
  have "of_char (hex_digit d) \<noteq> (58 :: nat)" and "of_char (hex_digit d) \<noteq> (125 :: nat)"
    using assms by (auto simp: of_char_hex_digit)
  then show ?thesis by fastforce
qed

lemma hex_plain:
  assumes "c \<in> set (hex_EncodeToString s)"
  shows "c \<noteq> CHR '':'' \<and> c \<noteq> CHR ''}''"
proof -
  obtain b where "c \<in> set (hex_byte b)"
    using assms by (auto simp: hex_EncodeToString_def)
  then consider "c = hex_digit (of_char b div 16)" | "c = hex_digit (of_char b mod 16)"
    by (auto simp: hex_byte_def Let_def)
  then show ?thesis
    by cases (simp_all add: hex_digit_plain less_mult_imp_div_less)
qed

end
