(* ===== verification/Pkg_Limits.thy ===== *)
theory Pkg_Limits
  imports Go_Prelude
begin

text \<open>
  \<open>pkg/limits\<close>: the numeric constants of the public contract and the shape of a tenant's budget,
  shared by the control plane and the quota checker.
\<close>

definition MaxEventsPerBatch :: nat where
  "MaxEventsPerBatch = 500"

definition MaxBatchBytes :: nat where
  "MaxBatchBytes = 2 ^ 20"

definition MaxPropsPerEvent :: nat where
  "MaxPropsPerEvent = 50"

definition MaxOutboxRows :: nat where
  "MaxOutboxRows = 10000"

definition MaxRetryAttempts :: nat where
  "MaxRetryAttempts = 20"

record Quota =
  q_DailyEvents :: int
  q_RPS :: int
  q_LegacyRPS :: int

definition DefaultQuota :: Quota where
  "DefaultQuota = \<lparr>q_DailyEvents = 1000000, q_RPS = 50, q_LegacyRPS = 5\<rparr>"

definition DefaultRPSTier1 :: int where
  "DefaultRPSTier1 = 10"

end
