(* ===== verification/Http_Io.thy ===== *)
theory Http_Io
  imports Pkg_Limits
begin

text \<open>
  The HTTP side the handlers of \<open>services/ingest/internal/handler\<close> share: requests, responses,
  \<open>httpError\<close> and \<open>readBody\<close> (\<open>batch.go\<close>). A reader is the bytes it delivers and how it ends. The gzip
  decoder is a parameter, from the compressed reader to the decompressed one.
\<close>

section \<open>Readers\<close>

datatype read_end = EOF | MaxBytesErr | OtherErr

record reader =
  rd_bytes :: string
  rd_end :: read_end

text \<open>\<open>http.MaxBytesReader\<close>: more than \<open>n\<close> bytes are an error of its own type.\<close>

definition MaxBytesReader :: "reader \<Rightarrow> nat \<Rightarrow> reader" where
  "MaxBytesReader r n =
     (if length (rd_bytes r) \<le> n then r else \<lparr>rd_bytes = take n (rd_bytes r), rd_end = MaxBytesErr\<rparr>)"

text \<open>\<open>io.LimitReader\<close>: an end of file after \<open>n\<close> bytes.\<close>

definition LimitReader :: "reader \<Rightarrow> nat \<Rightarrow> reader" where
  "LimitReader r n =
     (if length (rd_bytes r) < n then r else \<lparr>rd_bytes = take n (rd_bytes r), rd_end = EOF\<rparr>)"

definition ReadAll :: "reader \<Rightarrow> read_end + string" where
  "ReadAll r = (if rd_end r = EOF then Inr (rd_bytes r) else Inl (rd_end r))"

type_synonym gzip_NewReader = "reader \<Rightarrow> reader option"

section \<open>readBody\<close>

datatype read_error = ErrTooLarge | ErrUnreadable

record http_request =
  rq_Authorization :: string
  rq_ContentEncoding :: string
  rq_Body :: reader

definition read_capped :: "reader \<Rightarrow> read_error + string" where
  "read_capped src = (case ReadAll src of
      Inl MaxBytesErr \<Rightarrow> Inl ErrTooLarge
    | Inl _ \<Rightarrow> Inl ErrUnreadable
    | Inr b \<Rightarrow> if length b > MaxBatchBytes then Inl ErrTooLarge else Inr b)"

definition readBody :: "gzip_NewReader \<Rightarrow> http_request \<Rightarrow> read_error + string" where
  "readBody gz r =
     (let src = MaxBytesReader (rq_Body r) MaxBatchBytes in
      if rq_ContentEncoding r = ''gzip'' then
        (case gz src of
           None \<Rightarrow> Inl ErrUnreadable
         | Some zr \<Rightarrow> read_capped (LimitReader zr (MaxBatchBytes + 1)))
      else read_capped src)"

section \<open>Responses\<close>

datatype resp_body = ErrorBody string | TextBody string | RawBody string | ChallengeBody string | NoBody

record response =
  rs_Code :: nat
  rs_Header :: "string \<Rightarrow> string option"
  rs_Body :: resp_body

definition json_header :: "string \<Rightarrow> string option" where
  "json_header = [''Content-Type'' \<mapsto> ''application/json'']"

definition httpError :: "(string \<Rightarrow> string option) \<Rightarrow> nat \<Rightarrow> string \<Rightarrow> response" where
  "httpError h code msg = \<lparr>rs_Code = code, rs_Header = h(''Content-Type'' \<mapsto> ''application/json''),
     rs_Body = ErrorBody msg\<rparr>"

lemma httpError_code [simp]: "rs_Code (httpError h code msg) = code"
  by (simp add: httpError_def)

section \<open>Properties\<close>

text \<open>What a request means, independent of how it is read: its bytes after decoding, with no cap anywhere.\<close>

definition decoded_body :: "gzip_NewReader \<Rightarrow> http_request \<Rightarrow> reader option" where
  "decoded_body gz r = (if rq_ContentEncoding r = ''gzip'' then gz (rq_Body r) else Some (rq_Body r))"

text \<open>
  What the code relies on of \<open>compress/gzip\<close>: a reader of concatenated members only ends without an error where the
  compressed reader does, so an error below it is never taken for the end of the body.
\<close>

definition gzip_reads_to_end :: "gzip_NewReader \<Rightarrow> bool" where
  "gzip_reads_to_end gz \<longleftrightarrow> (\<forall>src zr. gz src = Some zr \<and> rd_end zr = EOF \<longrightarrow> rd_end src = EOF)"

lemma read_capped_limited:
  "read_capped (LimitReader zr (Suc MaxBatchBytes)) = (if MaxBatchBytes < length (rd_bytes zr) then Inl ErrTooLarge
     else case rd_end zr of EOF \<Rightarrow> Inr (rd_bytes zr) | MaxBytesErr \<Rightarrow> Inl ErrTooLarge | OtherErr \<Rightarrow> Inl ErrUnreadable)"
  by (cases "rd_end zr") (auto simp: read_capped_def LimitReader_def ReadAll_def)

lemma read_capped_short:
  "length (rd_bytes src) \<le> MaxBatchBytes \<Longrightarrow> read_capped src = (case rd_end src of EOF \<Rightarrow> Inr (rd_bytes src)
     | MaxBytesErr \<Rightarrow> Inl ErrTooLarge | OtherErr \<Rightarrow> Inl ErrUnreadable)"
  by (cases "rd_end src") (auto simp: read_capped_def ReadAll_def)

text \<open>A body that fits on the wire is read as its decoded bytes say.\<close>

lemma readBody_fits:
  assumes "length (rd_bytes (rq_Body r)) \<le> MaxBatchBytes"
  shows "readBody gz r = (case decoded_body gz r of
      None \<Rightarrow> Inl ErrUnreadable
    | Some src \<Rightarrow> if MaxBatchBytes < length (rd_bytes src) then Inl ErrTooLarge
        else case rd_end src of EOF \<Rightarrow> Inr (rd_bytes src) | MaxBytesErr \<Rightarrow> Inl ErrTooLarge | OtherErr \<Rightarrow> Inl ErrUnreadable)"
  using assms read_capped_short [OF assms]
  by (simp add: readBody_def decoded_body_def MaxBytesReader_def read_capped_limited Let_def split: option.splits)

text \<open>One that does not fit is refused, whatever it would decode to.\<close>

lemma readBody_oversize:
  assumes "gzip_reads_to_end gz" "MaxBatchBytes < length (rd_bytes (rq_Body r))"
  shows "readBody gz r = Inl ErrTooLarge \<or> rq_ContentEncoding r = ''gzip'' \<and> readBody gz r = Inl ErrUnreadable"
proof (cases "rq_ContentEncoding r = ''gzip''")
  case True
  let ?src = "MaxBytesReader (rq_Body r) MaxBatchBytes"
  have "rd_end ?src = MaxBytesErr" using assms(2) by (simp add: MaxBytesReader_def)
  then have "rd_end zr \<noteq> EOF" if "gz ?src = Some zr" for zr
    using assms(1) that unfolding gzip_reads_to_end_def by fastforce
  with True show ?thesis
    by (auto simp: readBody_def read_capped_limited Let_def split: option.splits read_end.splits)
next
  case False
  then show ?thesis using assms(2) by (simp add: readBody_def MaxBytesReader_def read_capped_def ReadAll_def)
qed

text \<open>
  C33. The body cap is exact: a body is returned exactly when it arrives in at most 1 MiB and decodes completely to at
  most 1 MiB, and then it is the decoded body, unshortened. One that decodes to more, however small it
  was on the wire, is reported as too large, as is more than 1 MiB of plain body; one that breaks
  off within the cap or is no gzip stream is reported as unreadable. More than 1 MiB on the wire is always
  refused, also when it would decompress to less.
\<close>

theorem readBody_cap_exact:
  assumes "gzip_reads_to_end gz"
  shows "(readBody gz r = Inr b \<longleftrightarrow> length (rd_bytes (rq_Body r)) \<le> 1048576 \<and> length b \<le> 1048576 \<and>
      decoded_body gz r = Some \<lparr>rd_bytes = b, rd_end = EOF\<rparr>) \<and>
    (length (rd_bytes (rq_Body r)) \<le> 1048576 \<longrightarrow>
      (case decoded_body gz r of
         None \<Rightarrow> readBody gz r = Inl ErrUnreadable
       | Some src \<Rightarrow> (1048576 < length (rd_bytes src) \<longrightarrow> readBody gz r = Inl ErrTooLarge) \<and>
           (length (rd_bytes src) \<le> 1048576 \<and> rd_end src = OtherErr \<longrightarrow> readBody gz r = Inl ErrUnreadable))) \<and>
    (1048576 < length (rd_bytes (rq_Body r)) \<and> rq_ContentEncoding r \<noteq> ''gzip'' \<longrightarrow> readBody gz r = Inl ErrTooLarge)"
proof (cases "length (rd_bytes (rq_Body r)) \<le> MaxBatchBytes")
  case True
  then have wire: "length (rd_bytes (rq_Body r)) \<le> 1048576" by (simp add: MaxBatchBytes_def)
  note fits = readBody_fits [OF True, of gz, unfolded MaxBatchBytes_def]
  show ?thesis
  proof (cases "decoded_body gz r")
    case None
    with fits wire show ?thesis by simp
  next
    case (Some src)
    obtain bs e where "src = \<lparr>rd_bytes = bs, rd_end = e\<rparr>" by (cases src)
    with Some fits wire show ?thesis by (cases e; cases "length bs \<le> 1048576") auto
  qed
next
  case False
  then show ?thesis using readBody_oversize [OF assms, of r] by (auto simp: MaxBatchBytes_def)
qed

text \<open>A small request that decompresses to one byte more than the cap.\<close>

definition gzip_bomb :: gzip_NewReader where
  "gzip_bomb src = Some \<lparr>rd_bytes = replicate 1048577 (CHR ''x''), rd_end = rd_end src\<rparr>"

theorem readBody_cap_exact_witness:
  "readBody gzip_bomb \<lparr>rq_Authorization = [], rq_ContentEncoding = ''gzip'', rq_Body = \<lparr>rd_bytes = ''z'', rd_end = EOF\<rparr>\<rparr> =
     Inl ErrTooLarge"
proof -
  have "gzip_reads_to_end gzip_bomb" by (simp add: gzip_reads_to_end_def gzip_bomb_def)
  from readBody_cap_exact [OF this, of "\<lparr>rq_Authorization = [], rq_ContentEncoding = ''gzip'', rq_Body = \<lparr>rd_bytes = ''z'', rd_end = EOF\<rparr>\<rparr>"]
  show ?thesis by (simp add: decoded_body_def gzip_bomb_def)
qed

end
