(* ===== verification/Wire.thy ===== *)
theory Wire
  imports Go_Prelude
begin

text \<open>
  The messages of \<open>gen/go/tracking/v1\<close> that the ingest service reads and writes. A message
  pointer that may be nil is an \<open>option\<close>; the generated getters return the zero value on nil. A
  Go map is the list of its entries in the order one iteration visits them, so that code whose
  result depends on that unspecified order shows it.
\<close>

section \<open>Event envelope\<close>

datatype Value_Kind = StringValue string | NumberValue float64 | BoolValue bool

type_synonym Value = "Value_Kind option"

record Context =
  x_SdkVersion :: string
  x_AppVersion :: string
  x_Os :: string
  x_OsVersion :: string
  x_Locale :: string

record Event =
  e_EventId :: string
  e_Name :: string
  e_TsClient :: int64
  e_Seq :: uint64
  e_DeviceId :: string
  e_SessionId :: string
  e_AnonymousId :: string
  e_UserId :: string
  e_Props :: "(string \<times> Value) list"
  e_Context :: "Context option"

definition GetSdkVersion :: "Context option \<Rightarrow> string" where
  "GetSdkVersion x = (case x of None \<Rightarrow> [] | Some c \<Rightarrow> x_SdkVersion c)"

definition GetAppVersion :: "Context option \<Rightarrow> string" where
  "GetAppVersion x = (case x of None \<Rightarrow> [] | Some c \<Rightarrow> x_AppVersion c)"

definition GetOs :: "Context option \<Rightarrow> string" where
  "GetOs x = (case x of None \<Rightarrow> [] | Some c \<Rightarrow> x_Os c)"

definition GetOsVersion :: "Context option \<Rightarrow> string" where
  "GetOsVersion x = (case x of None \<Rightarrow> [] | Some c \<Rightarrow> x_OsVersion c)"

definition GetLocale :: "Context option \<Rightarrow> string" where
  "GetLocale x = (case x of None \<Rightarrow> [] | Some c \<Rightarrow> x_Locale c)"

section \<open>Batch and token exchange\<close>

record BatchRequest =
  b_SentAt :: int64
  b_Events :: "Event list"

record Reject =
  rj_EventId :: string
  rj_Code :: string
  rj_Message :: string

record BatchResponse =
  br_ReceivedAt :: int64
  br_Accepted :: "string list"
  br_Rejected :: "Reject list"

record TokenRequest =
  t_ClientId :: string
  t_Platform :: string
  t_Attestation :: string
  t_Challenge :: string
  t_DeviceHint :: string

record TokenResponse =
  tr_AccessToken :: string
  tr_ExpiresIn :: int64
  tr_TrustTier :: "32 word"

end
