(* ===== verification/Go_Date.thy ===== *)
theory Go_Date
  imports Go_Prelude
begin

text \<open>
  Calendar dates in UTC: \<open>time.Date\<close> and \<open>Time.Format("2006-01-02")\<close>. A day is counted from
  January 1 of year 1. The split of a day number into cycles of 400, 100, 4 and 1 years is the
  one of Go's \<open>time\<close> package. The theory shows that it inverts \<open>time.Date\<close>, so two instants have
  the same date text exactly when they fall on the same UTC day.
\<close>

definition is_leap :: "int \<Rightarrow> bool" where
  "is_leap y \<longleftrightarrow> y mod 4 = 0 \<and> (y mod 100 \<noteq> 0 \<or> y mod 400 = 0)"

definition month_lengths :: "bool \<Rightarrow> nat list" where
  "month_lengths leap = [31, if leap then 29 else 28, 31, 30, 31, 30, 31, 31, 30, 31, 30, 31]"

fun split_months :: "nat \<Rightarrow> nat list \<Rightarrow> nat \<Rightarrow> nat \<times> nat" where
  "split_months m [] d = (m, d + 1)"
| "split_months m (l # ls) d = (if d < l then (m, d + 1) else split_months (m + 1) ls (d - l))"

text \<open>Days before January 1 of year \<open>y\<close>, counted from January 1 of year 1.\<close>

definition days_before_year :: "int \<Rightarrow> int" where
  "days_before_year y = 365 * (y - 1) + (y - 1) div 4 - (y - 1) div 100 + (y - 1) div 400"

definition civil_days :: "int \<times> nat \<times> nat \<Rightarrow> int" where
  "civil_days = (\<lambda>(y, m, d). days_before_year y
     + int (sum_list (take (m - 1) (month_lengths (is_leap y)))) + int d - 1)"

definition cycle_split :: "int \<Rightarrow> int \<times> int" where
  "cycle_split n =
     (let a = n div 146097; r = n mod 146097;
          b = min 3 (r div 36524); s = r - 36524 * b;
          c = s div 1461; t = s mod 1461;
          e = min 3 (t div 365)
      in (400 * a + 100 * b + 4 * c + e + 1, t - 365 * e))"

definition civil_date :: "int \<Rightarrow> int \<times> nat \<times> nat" where
  "civil_date n = (case cycle_split n of (y, yd) \<Rightarrow>
     (y, split_months 1 (month_lengths (is_leap y)) (nat yd)))"

lemma min3_div:
  fixes s k :: int
  assumes "0 \<le> s" "s \<le> 4 * k" "0 < k"
  shows "\<exists>q r. min 3 (s div k) = q \<and> s = k * q + r \<and> 0 \<le> q \<and> q \<le> 3 \<and> 0 \<le> r \<and>
    (r < k \<or> q = 3 \<and> r = k)"
proof (cases "s div k \<le> 3")
  case True
  have "0 \<le> s div k" using assms by (simp add: pos_imp_zdiv_nonneg_iff)
  then show ?thesis using True assms
    by (intro exI [of _ "s div k"] exI [of _ "s mod k"]) simp
next
  case False
  have "k * 4 \<le> k * (s div k)" using False assms by (intro mult_left_mono) auto
  also have "\<dots> \<le> s" using assms by (metis le_add_same_cancel1 mult_div_mod_eq pos_mod_sign)
  finally have "s = 4 * k" using assms by simp
  then show ?thesis using False assms by (intro exI [of _ 3] exI [of _ k]) simp
qed
lemma year_digits:
  fixes a b c e :: int
  assumes "0 \<le> b" "b \<le> 3" "0 \<le> c" "c \<le> 24" "0 \<le> e" "e \<le> 3"
  shows "(400 * a + 100 * b + 4 * c + e) div 4 = 100 * a + 25 * b + c"
    and "(400 * a + 100 * b + 4 * c + e) div 100 = 4 * a + b"
    and "(400 * a + 100 * b + 4 * c + e) div 400 = a"
proof -
  show "(400 * a + 100 * b + 4 * c + e) div 4 = 100 * a + 25 * b + c"
    using assms by (intro int_div_pos_eq [of _ _ _ e]) simp_all
  show "(400 * a + 100 * b + 4 * c + e) div 100 = 4 * a + b"
    using assms by (intro int_div_pos_eq [of _ _ _ "4 * c + e"]) simp_all
  show "(400 * a + 100 * b + 4 * c + e) div 400 = a"
    using assms by (intro int_div_pos_eq [of _ _ _ "100 * b + 4 * c + e"]) simp_all
qed

lemma cycle_split_cases:
  obtains a b c e yd :: int
  where "cycle_split n = (400 * a + 100 * b + 4 * c + e + 1, yd)"
    and "n = 146097 * a + 36524 * b + 1461 * c + 365 * e + yd"
    and "0 \<le> b" "b \<le> 3" "0 \<le> c" "c \<le> 24" "0 \<le> e" "e \<le> 3" "0 \<le> yd"
    and "yd < 365 \<or> yd = 365 \<and> e = 3 \<and> (c = 24 \<longrightarrow> b = 3)"
proof -
  define a r where "a = n div 146097" and "r = n mod 146097"
  have n: "n = 146097 * a + r" and r: "0 \<le> r" "r \<le> 4 * 36524"
    by (simp_all add: a_def r_def)
  obtain b s where b: "min 3 (r div 36524) = b" "r = 36524 * b + s" "0 \<le> b" "b \<le> 3" "0 \<le> s"
      "s < 36524 \<or> b = 3 \<and> s = 36524"
    using min3_div [OF r zero_less_numeral] by blast
  define c t where "c = s div 1461" and "t = s mod 1461"
  have s: "s = 1461 * c + t" and t: "0 \<le> t" "t \<le> 4 * 365" and c: "0 \<le> c" "c \<le> 24"
    using b(5,6) by (auto simp: c_def t_def)
  obtain e yd where e: "min 3 (t div 365) = e" "t = 365 * e + yd" "0 \<le> e" "e \<le> 3" "0 \<le> yd"
      "yd < 365 \<or> e = 3 \<and> yd = 365"
    using min3_div [OF t zero_less_numeral] by blast
  have "r - 36524 * b = s" "t - 365 * e = yd"
    using b(2) e(2) by simp_all
  then have "cycle_split n = (400 * a + 100 * b + 4 * c + e + 1, yd)"
    by (simp only: cycle_split_def Let_def a_def [symmetric] r_def [symmetric] b(1)
        c_def [symmetric] t_def [symmetric] e(1))
  moreover have "yd < 365 \<or> yd = 365 \<and> e = 3 \<and> (c = 24 \<longrightarrow> b = 3)"
    using e(2,6) b(6) s by auto
  ultimately show thesis
    using that [of a b c e yd] n b(2-4) s c e(2-5) by simp
qed

lemma leap_last_day:
  fixes a b c :: int
  assumes "0 \<le> b" "b \<le> 3" "0 \<le> c" "c \<le> 24" "c = 24 \<longrightarrow> b = 3"
  shows "is_leap (400 * a + 100 * b + 4 * c + 3 + 1)"
proof (cases "c = 24")
  case True
  with assms have "400 * a + 100 * b + 4 * c + 3 + 1 = 400 * (a + 1)" by simp
  then show ?thesis by (simp add: is_leap_def)
next
  case False
  have "(400 * a + 100 * b + 4 * c + 3 + 1) mod 100 = 4 * c + 4"
    using int_mod_pos_eq [of "400 * a + 100 * b + 4 * c + 3 + 1" 100 "4 * a + b" "4 * c + 4"]
      False assms by simp
  moreover have "(400 * a + 100 * b + 4 * c + 3 + 1) mod 4 = 0"
    using int_mod_pos_eq [of "400 * a + 100 * b + 4 * c + 3 + 1" 4 "100 * a + 25 * b + c + 1" 0]
    by simp
  ultimately show ?thesis using assms by (simp add: is_leap_def)
qed

lemma split_months_inverse:
  assumes "split_months m ls d = (m', d')" "d < sum_list ls"
  shows "m \<le> m' \<and> m' < m + length ls \<and> 0 < d' \<and> d' \<le> ls ! (m' - m) \<and>
    d = sum_list (take (m' - m) ls) + d' - 1"
  using assms
proof (induction ls arbitrary: m d)
  case (Cons l ls)
  show ?case
  proof (cases "d < l")
    case True
    with Cons.prems show ?thesis by auto
  next
    case False
    with Cons.prems have "split_months (m + 1) ls (d - l) = (m', d')" "d - l < sum_list ls"
      by auto
    from Cons.IH [OF this] have IH: "m + 1 \<le> m'" "m' < m + 1 + length ls" "0 < d'"
      "d' \<le> ls ! (m' - (m + 1))" "d - l = sum_list (take (m' - (m + 1)) ls) + d' - 1"
      by simp_all
    then have "m' - m = Suc (m' - (m + 1))" by simp
    with IH False show ?thesis by simp
  qed
qed simp

lemma sum_month_lengths: "sum_list (month_lengths leap) = (if leap then 366 else 365)"
  by (simp add: month_lengths_def)

lemma month_length_le: "i < 12 \<Longrightarrow> month_lengths leap ! i \<le> 31"
  by (auto simp: month_lengths_def nth_Cons' split: if_splits)

text \<open>The date of a day gives the day back, with a month and a day of the calendar's range.\<close>

lemma civil_date_correct:
  assumes "civil_date n = (y, m, d)"
  shows "civil_days (y, m, d) = n \<and> 1 \<le> m \<and> m \<le> 12 \<and> 1 \<le> d \<and> d \<le> 31"
proof -
  obtain a b c e yd where
    cs: "cycle_split n = (400 * a + 100 * b + 4 * c + e + 1, yd)" and
    n: "n = 146097 * a + 36524 * b + 1461 * c + 365 * e + yd" and
    rng: "0 \<le> b" "b \<le> 3" "0 \<le> c" "c \<le> 24" "0 \<le> e" "e \<le> 3" and
    yd: "0 \<le> yd" "yd < 365 \<or> yd = 365 \<and> e = 3 \<and> (c = 24 \<longrightarrow> b = 3)"
    by (rule cycle_split_cases [of n])
  from assms cs have y: "y = 400 * a + 100 * b + 4 * c + e + 1"
    and sm: "split_months 1 (month_lengths (is_leap y)) (nat yd) = (m, d)"
    by (auto simp: civil_date_def)
  have "nat yd < sum_list (month_lengths (is_leap y))"
    using yd leap_last_day [of b c a] rng by (auto simp: sum_month_lengths y)
  from split_months_inverse [OF sm this]
  have md: "1 \<le> m" "m \<le> 12" "0 < d" "d \<le> month_lengths (is_leap y) ! (m - 1)"
    "nat yd = sum_list (take (m - 1) (month_lengths (is_leap y))) + d - 1"
    by (auto simp: month_lengths_def)
  have "days_before_year y = 365 * (400 * a + 100 * b + 4 * c + e) + (100 * a + 25 * b + c)
      - (4 * a + b) + a"
    using year_digits [OF rng, of a] by (simp add: days_before_year_def y)
  with md n yd(1) have "civil_days (y, m, d) = n"
    by (simp add: civil_days_def)
  moreover have "d \<le> 31"
    using md month_length_le [of "m - 1" "is_leap y"] by linarith
  ultimately show ?thesis using md by simp
qed

lemma civil_date_inject: "civil_date i = civil_date j \<longleftrightarrow> i = j"
  by (metis civil_date_correct prod_cases3)

section \<open>The date text\<close>

definition pad_year :: "int \<Rightarrow> string" where
  "pad_year y = (if y < 0 then CHR ''-'' # pad_left 4 (udec (nat (- y))) else pad_left 4 (udec (nat y)))"

text \<open>Days since year 1 of an instant, and \<open>Format("2006-01-02")\<close>.\<close>

definition utc_day :: "gotime \<Rightarrow> int" where
  "utc_day t = t div Day24h + 719162"

definition format_date :: "gotime \<Rightarrow> string" where
  "format_date t = (case civil_date (utc_day t) of (y, m, d) \<Rightarrow>
     pad_year y @ ''-'' @ pad_left 2 (udec m) @ ''-'' @ pad_left 2 (udec d))"

text \<open>\<open>time.Date(y, m, d, hh, mm, ss, ns, time.UTC)\<close> for a date of the calendar.\<close>

definition time_Date :: "int \<Rightarrow> nat \<Rightarrow> nat \<Rightarrow> int \<Rightarrow> int \<Rightarrow> int \<Rightarrow> int \<Rightarrow> gotime" where
  "time_Date y m d hh mm ss ns =
     (civil_days (y, m, d) - 719162) * Day24h + hh * Hour + mm * Minute + ss * Second + ns"

lemma atou_zeros: "atou 0 (replicate k (CHR ''0'') @ s) = atou 0 s"
  by (induction k) (simp_all add: digit_val_def)

lemma pad_left_udec_inject: "pad_left w (udec m) = pad_left w (udec n) \<longleftrightarrow> m = n"
  by (metis atou_zeros atou_udec option.inject pad_left_def)

lemma pad_left_hd:
  assumes "pad_left w (udec n) = c # s"
  shows "digit_val c \<noteq> None"
proof (cases "w - length (udec n)")
  case 0
  with assms have "c \<in> set (udec n)" by (simp add: pad_left_def)
  then show ?thesis by (rule udec_digits)
next
  case (Suc k)
  with assms have "c = CHR ''0''" by (simp add: pad_left_def)
  then show ?thesis by (simp add: digit_val_def)
qed

lemma pad_year_inject: "pad_year y = pad_year z \<longleftrightarrow> y = z"
proof -
  have ne: "CHR ''-'' # s \<noteq> pad_left w (udec n)" for s w n
    using pad_left_hd [of w n "CHR ''-''" s] by auto
  show ?thesis
    using ne ne [symmetric] by (auto simp: pad_year_def pad_left_udec_inject)
qed

lemma length_udec_2: "n < 100 \<Longrightarrow> length (udec n) \<le> 2"
  using less_mult_imp_div_less [of n 10 10]
  by (simp add: udec.simps [of n] udec.simps [of "n div 10"])

lemma length_pad_2: "n < 100 \<Longrightarrow> length (pad_left 2 (udec n)) = 2"
  using length_udec_2 [of n] by (simp add: pad_left_def)

text \<open>Two instants have the same date text exactly when they fall on the same UTC day.\<close>

lemma format_date_inject: "format_date s = format_date t \<longleftrightarrow> s div Day24h = t div Day24h"
proof
  assume eq: "format_date s = format_date t"
  obtain y m d where s: "civil_date (utc_day s) = (y, m, d)" by (rule prod_cases3)
  obtain y' m' d' where t: "civil_date (utc_day t) = (y', m', d')" by (rule prod_cases3)
  have len: "length (pad_left 2 (udec m)) = 2" "length (pad_left 2 (udec m')) = 2"
    "length (pad_left 2 (udec d)) = 2" "length (pad_left 2 (udec d')) = 2"
    using civil_date_correct [OF s] civil_date_correct [OF t] by (simp_all add: length_pad_2)
  have "pad_year y @ ''-'' @ pad_left 2 (udec m) @ ''-'' @ pad_left 2 (udec d)
      = pad_year y' @ ''-'' @ pad_left 2 (udec m') @ ''-'' @ pad_left 2 (udec d')"
    using eq by (simp add: format_date_def s t)
  then have "pad_year y = pad_year y' \<and> pad_left 2 (udec m) = pad_left 2 (udec m') \<and>
      pad_left 2 (udec d) = pad_left 2 (udec d')"
    using len by (simp add: append_eq_append_conv)
  then have "civil_date (utc_day s) = civil_date (utc_day t)"
    by (simp add: s t pad_year_inject pad_left_udec_inject)
  then show "s div Day24h = t div Day24h"
    by (simp add: civil_date_inject utc_day_def)
next
  assume "s div Day24h = t div Day24h"
  then show "format_date s = format_date t" by (simp add: format_date_def utc_day_def)
qed

lemma pad_no_colon: "CHR '':'' \<notin> set (pad_left w (udec n))"
  using udec_digits [of "CHR '':''" n] by (auto simp: pad_left_def)

lemma format_date_no_colon: "CHR '':'' \<notin> set (format_date t)"
  using pad_no_colon by (auto simp: format_date_def pad_year_def split: prod.splits)

end
