(* ===== verification/Validate.thy ===== *)
theory Validate
  imports Wire Pkg_Limits Go_Date "HOL-Library.Multiset"
begin

text \<open>
  \<open>services/ingest/internal/validate\<close>: the per-event check. \<open>validate_Event\<close> is the function
  \<open>Event\<close> of the source, \<open>valid_event\<close> the conditions under which it
  lets an event through, which are fewer than storage has (a zero byte in an id passes, see \<open>Batch_Handler\<close>).
  \<open>uuid_Parse\<close> stands for \<open>google/uuid\<close>: the canonical text (\<open>String()\<close>) of the identifier a
  string parses to, or \<open>None\<close> on a parse error.
\<close>

section \<open>Codes and bounds\<close>

definition CodeMissingEventID :: string where "CodeMissingEventID = ''MISSING_EVENT_ID''"
definition CodeBadEventID :: string where "CodeBadEventID = ''BAD_EVENT_ID''"
definition CodeMissingName :: string where "CodeMissingName = ''MISSING_NAME''"
definition CodeNameTooLong :: string where "CodeNameTooLong = ''NAME_TOO_LONG''"
definition CodeMissingDeviceID :: string where "CodeMissingDeviceID = ''MISSING_DEVICE_ID''"
definition CodeBadTsClient :: string where "CodeBadTsClient = ''BAD_TS_CLIENT''"
definition CodeTooManyProps :: string where "CodeTooManyProps = ''TOO_MANY_PROPS''"
definition CodePropKeyTooLong :: string where "CodePropKeyTooLong = ''PROP_KEY_TOO_LONG''"
definition CodeInvalidPropertyType :: string where
  "CodeInvalidPropertyType = ''INVALID_PROPERTY_TYPE''"

definition maxNameLen :: nat where "maxNameLen = 255"
definition maxPropKeyLen :: nat where "maxPropKeyLen = 128"

definition minTsClientMS :: int64 where
  "minTsClientMS = UnixMilli (time_Date 1900 1 1 0 0 0 0)"

definition maxTsClientMS :: int64 where
  "maxTsClientMS = UnixMilli (time_Date 2299 12 31 23 59 59 999000000)"

section \<open>The check\<close>

definition mk_reject :: "Event \<Rightarrow> string \<Rightarrow> string \<Rightarrow> Reject" where
  "mk_reject e code msg = \<lparr>rj_EventId = e_EventId e, rj_Code = code, rj_Message = msg\<rparr>"

text \<open>One entry of the property map; \<open>None\<close> means the loop goes on.\<close>

definition check_prop :: "Event \<Rightarrow> string \<times> Value \<Rightarrow> Reject option" where
  "check_prop e = (\<lambda>(k, v).
     if length k > maxPropKeyLen then
       Some (mk_reject e CodePropKeyTooLong
         (''props.'' @ k @ '': key exceeds '' @ itoa (int maxPropKeyLen) @ '' bytes''))
     else case v of
       Some (StringValue _) \<Rightarrow> None
     | Some (BoolValue _) \<Rightarrow> None
     | Some (NumberValue x) \<Rightarrow>
         if IsNaN x \<or> IsInf x then
           Some (mk_reject e CodeInvalidPropertyType (''props.'' @ k @ '': must be a finite number''))
         else None
     | None \<Rightarrow> Some (mk_reject e CodeInvalidPropertyType (''props.'' @ k @ '': no value set'')))"

fun check_props :: "Event \<Rightarrow> (string \<times> Value) list \<Rightarrow> Reject option" where
  "check_props e [] = None"
| "check_props e (p # ps) = (case check_prop e p of Some r \<Rightarrow> Some r | None \<Rightarrow> check_props e ps)"

definition validate_Event :: "(string \<Rightarrow> string option) \<Rightarrow> Event \<Rightarrow> Reject option" where
  "validate_Event uuid_Parse e =
     (if e_EventId e = [] then Some (mk_reject e CodeMissingEventID ''event_id is required'')
      else if (case uuid_Parse (e_EventId e) of None \<Rightarrow> True | Some s \<Rightarrow> s \<noteq> e_EventId e) then
        Some (mk_reject e CodeBadEventID ''event_id must be a canonical UUID'')
      else if e_Name e = [] then Some (mk_reject e CodeMissingName ''name is required'')
      else if length (e_Name e) > maxNameLen then
        Some (mk_reject e CodeNameTooLong
          (''name exceeds '' @ itoa (int maxNameLen) @ '' bytes''))
      else if e_DeviceId e = [] then
        Some (mk_reject e CodeMissingDeviceID ''device_id is required'')
      else if sint (e_TsClient e) < sint minTsClientMS \<or> sint maxTsClientMS < sint (e_TsClient e) then
        Some (mk_reject e CodeBadTsClient ''ts_client is out of range'')
      else if length (e_Props e) > MaxPropsPerEvent then
        Some (mk_reject e CodeTooManyProps
          (''props: '' @ itoa (int (length (e_Props e))) @ '' exceeds limit of ''
             @ itoa (int MaxPropsPerEvent)))
      else check_props e (e_Props e))"

section \<open>Specification\<close>

fun valid_value :: "Value \<Rightarrow> bool" where
  "valid_value None = False"
| "valid_value (Some (NumberValue x)) = finite_float x"
| "valid_value (Some _) = True"

definition valid_event :: "(string \<Rightarrow> string option) \<Rightarrow> Event \<Rightarrow> bool" where
  "valid_event uuid_Parse e \<longleftrightarrow>
     e_EventId e \<noteq> [] \<and> uuid_Parse (e_EventId e) = Some (e_EventId e)
   \<and> e_Name e \<noteq> [] \<and> length (e_Name e) \<le> 255 \<and> e_DeviceId e \<noteq> []
   \<and> -2208988800000 \<le> sint (e_TsClient e) \<and> sint (e_TsClient e) \<le> 10413791999999
   \<and> length (e_Props e) \<le> 50
   \<and> (\<forall>(k, v) \<in> set (e_Props e). length k \<le> 128 \<and> valid_value v)"

lemma minTsClientMS_val: "sint minTsClientMS = -2208988800000"
proof -
  have "minTsClientMS = word_of_int (-2208988800000)"
    by (simp add: minTsClientMS_def UnixMilli_def time_Date_def civil_days_def days_before_year_def)
  then show ?thesis using sint_int64 [of "-2208988800000"] by simp
qed

lemma maxTsClientMS_val: "sint maxTsClientMS = 10413791999999"
proof -
  have "civil_days (2299, 12, 31) = 839691"
    by (simp add: civil_days_def days_before_year_def is_leap_def month_lengths_def take_Cons')
  then have "maxTsClientMS = word_of_int 10413791999999"
    by (simp add: maxTsClientMS_def UnixMilli_def time_Date_def)
  then show ?thesis using sint_int64 [of 10413791999999] by simp
qed

lemma check_prop_None: "check_prop e (k, v) = None \<longleftrightarrow> length k \<le> 128 \<and> valid_value v"
  by (cases v rule: valid_value.cases)
    (auto simp: check_prop_def maxPropKeyLen_def finite_float_iff)

lemma check_props_None:
  "check_props e ps = None \<longleftrightarrow> (\<forall>(k, v) \<in> set ps. length k \<le> 128 \<and> valid_value v)"
proof (induction ps)
  case (Cons p ps)
  obtain k v where "p = (k, v)" by (cases p)
  with Cons check_prop_None [of e k v] show ?case by (cases "check_prop e p") auto
qed simp

lemma validate_None_iff: "validate_Event u e = None \<longleftrightarrow> valid_event u e"
  by (auto simp: validate_Event_def valid_event_def check_props_None minTsClientMS_val
      maxTsClientMS_val maxNameLen_def MaxPropsPerEvent_def split: option.splits)

section \<open>The first problem found\<close>

text \<open>
  The reference: every problem the package knows, in the order it looks for them, each with the
  condition under which an event has it. The verdict is the first that applies.
\<close>

definition prop_problems :: "string \<times> Value \<Rightarrow> (string \<times> bool) list" where
  "prop_problems = (\<lambda>(k, v). [(CodePropKeyTooLong, length k > 128),
     (CodeInvalidPropertyType, \<not> valid_value v)])"

definition problems :: "(string \<Rightarrow> string option) \<Rightarrow> Event \<Rightarrow> (string \<times> bool) list" where
  "problems uuid_Parse e =
     [(CodeMissingEventID, e_EventId e = []),
      (CodeBadEventID, uuid_Parse (e_EventId e) \<noteq> Some (e_EventId e)),
      (CodeMissingName, e_Name e = []),
      (CodeNameTooLong, length (e_Name e) > 255),
      (CodeMissingDeviceID, e_DeviceId e = []),
      (CodeBadTsClient, sint (e_TsClient e) < -2208988800000 \<or> 10413791999999 < sint (e_TsClient e)),
      (CodeTooManyProps, length (e_Props e) > 50)]
     @ concat (map prop_problems (e_Props e))"

lemma find_append: "find P (xs @ ys) = (case find P xs of None \<Rightarrow> find P ys | Some x \<Rightarrow> Some x)"
  by (induction xs) auto

lemma check_prop_code:
  "map_option rj_Code (check_prop e p) = map_option fst (find snd (prop_problems p))"
  by (cases p; cases "snd p" rule: valid_value.cases)
    (auto simp: check_prop_def prop_problems_def mk_reject_def maxPropKeyLen_def finite_float_iff)

lemma check_props_code:
  "map_option rj_Code (check_props e ps) = map_option fst (find snd (concat (map prop_problems ps)))"
proof (induction ps)
  case (Cons p ps)
  with check_prop_code [of e p] show ?case
    by (cases "check_prop e p") (auto simp: find_append split: option.splits)
qed simp

text \<open>
  C34. The code of a reject names the first problem in the documented order, and an event with
  no problem gets no reject; every other problem of the event is left unreported.
\<close>

theorem validate_Event_first_problem:
  "map_option rj_Code (validate_Event u e) = map_option fst (find snd (problems u e))"
proof -
  have uuid: "(case u (e_EventId e) of None \<Rightarrow> True | Some s \<Rightarrow> s \<noteq> e_EventId e)
      \<longleftrightarrow> u (e_EventId e) \<noteq> Some (e_EventId e)"
    by (auto split: option.splits)
  show ?thesis
    unfolding validate_Event_def uuid problems_def
    using check_props_code [of e "e_Props e"]
    by (simp add: mk_reject_def minTsClientMS_val maxTsClientMS_val maxNameLen_def
        MaxPropsPerEvent_def)
qed

lemma validate_Event_event_id:
  assumes "validate_Event u e = Some r"
  shows "rj_EventId r = e_EventId e"
proof -
  have "check_prop e p = Some r \<Longrightarrow> rj_EventId r = e_EventId e" for p
    by (auto simp: check_prop_def mk_reject_def split: prod.splits if_splits option.splits
        Value_Kind.splits)
  then have "check_props e ps = Some r \<Longrightarrow> rj_EventId r = e_EventId e" for ps
    by (induction ps) (auto split: option.splits)
  with assms show ?thesis
    by (auto simp: validate_Event_def mk_reject_def split: if_splits)
qed

text \<open>
  Go visits a map in no fixed order. Which reject an event gets may depend on that order,
  but whether it gets one does not: any order of the same properties gives the same verdict.
\<close>

lemma validate_Event_order_independent:
  assumes "mset ps = mset (e_Props e)"
  shows "validate_Event u (e\<lparr>e_Props := ps\<rparr>) = None \<longleftrightarrow> validate_Event u e = None"
proof -
  have "set ps = set (e_Props e)" "length ps = length (e_Props e)"
    using assms by (metis mset_eq_setD, metis mset_eq_length)
  then show ?thesis
    by (simp add: validate_None_iff valid_event_def)
qed

definition sample_event :: Event where
  "sample_event = \<lparr>e_EventId = ''0191f4a2-0000-7000-8000-000000000001'', e_Name = ''checkout'',
     e_TsClient = 1754092800000, e_Seq = 1, e_DeviceId = ''d1'', e_SessionId = ''s1'',
     e_AnonymousId = ''a1'', e_UserId = [],
     e_Props = [(''amount'', Some (NumberValue (Fin 5))), (''vip'', Some (BoolValue True))],
     e_Context = None\<rparr>"

end
