(* ===== verification/Go_Text.thy ===== *)
theory Go_Text
  imports Go_Prelude "HOL-Library.Sublist"
begin

text \<open>
  The functions of Go's \<open>strings\<close> package that the service calls, on byte strings:
  \<open>HasPrefix\<close>, \<open>HasSuffix\<close>, \<open>CutPrefix\<close>, \<open>Cut\<close>, \<open>Split\<close>, \<open>Join\<close>, \<open>TrimSpace\<close>, \<open>Fields\<close>
  and the use the code makes of \<open>EqualFold\<close>. White space is Go's \<open>unicode.IsSpace\<close>, recognised on
  the UTF-8 bytes, so the functions are exact on every input and not only on ASCII.
\<close>

section \<open>Prefixes and cutting\<close>

definition HasPrefix :: "string \<Rightarrow> string \<Rightarrow> bool" where
  "HasPrefix s p \<longleftrightarrow> take (length p) s = p"

definition HasSuffix :: "string \<Rightarrow> string \<Rightarrow> bool" where
  "HasSuffix s p \<longleftrightarrow> length p \<le> length s \<and> drop (length s - length p) s = p"

definition CutPrefix :: "string \<Rightarrow> string \<Rightarrow> string option" where
  "CutPrefix s p = (if HasPrefix s p then Some (drop (length p) s) else None)"

lemma HasPrefix_iff: "HasPrefix s p \<longleftrightarrow> (\<exists>r. s = p @ r)"
  unfolding HasPrefix_def by (metis append_eq_conv_conj append_take_drop_id)

lemma HasPrefix_append [simp]: "HasPrefix (p @ r) p"
  by (simp add: HasPrefix_def)

lemma CutPrefix_append [simp]: "CutPrefix (p @ r) p = Some r"
  by (simp add: CutPrefix_def)

lemma CutPrefix_Some_iff: "CutPrefix s p = Some r \<longleftrightarrow> s = p @ r"
  by (auto simp: CutPrefix_def HasPrefix_iff)

lemma CutPrefix_None_iff: "CutPrefix s p = None \<longleftrightarrow> \<not> HasPrefix s p"
  by (simp add: CutPrefix_def)

text \<open>\<open>strings.Cut(s, sep)\<close> for a one-byte separator.\<close>

definition Cut :: "char \<Rightarrow> string \<Rightarrow> (string \<times> string) option" where
  "Cut c s = (if c \<in> set s then Some (takeWhile ((\<noteq>) c) s, drop 1 (dropWhile ((\<noteq>) c) s)) else None)"

lemma Cut_append: "c \<notin> set s \<Longrightarrow> Cut c (s @ c # t) = Some (s, t)"
  by (simp add: Cut_def takeWhile_append dropWhile_append)

text \<open>\<open>strings.Split(s, sep)\<close> for a one-byte separator: never empty, one field more than separators.\<close>

fun Split :: "char \<Rightarrow> string \<Rightarrow> string list" where
  "Split c [] = [[]]"
| "Split c (a # s) = (if a = c then [] # Split c s
     else case Split c s of [] \<Rightarrow> [[a]] | f # fs \<Rightarrow> (a # f) # fs)"

fun Join :: "string list \<Rightarrow> string \<Rightarrow> string" where
  "Join [] sep = []"
| "Join [x] sep = x"
| "Join (x # xs) sep = x @ sep @ Join xs sep"

lemma Split_not_Nil [simp]: "Split c s \<noteq> []"
  by (induction s) (auto split: list.splits)

lemma Join_Cons: "xs \<noteq> [] \<Longrightarrow> Join (x # xs) sep = x @ sep @ Join xs sep"
  by (cases xs) simp_all

lemma Join_Split [simp]: "Join (Split c s) [c] = s"
proof (induction s)
  case (Cons a s)
  obtain f fs where sp: "Split c s = f # fs" by (cases "Split c s") auto
  with Cons show ?case by (cases fs) auto
qed simp

lemma Split_no_sep: "f \<in> set (Split c s) \<Longrightarrow> c \<notin> set f"
  by (induction s arbitrary: f) (auto split: list.splits if_splits)

section \<open>Slash-separated paths\<close>

text \<open>
  One step of \<open>Clean\<close> over the elements of a path: empty elements and \<open>.\<close> are dropped, \<open>..\<close> removes the element
  before it, stays when there is none in a relative path and vanishes at the root. The output is reversed.
\<close>

fun clean_step :: "bool \<Rightarrow> string \<Rightarrow> string list \<Rightarrow> string list" where
  "clean_step rooted e out =
     (if e = [] \<or> e = ''.'' then out
      else if e \<noteq> ''..'' then e # out
      else case out of
        [] \<Rightarrow> if rooted then [] else [e]
      | x # xs \<Rightarrow> if x = ''..'' then e # out else xs)"

definition Clean :: "string \<Rightarrow> string" where
  "Clean path =
     (let rooted = HasPrefix path ''/'';
          s = Join (rev (fold (clean_step rooted) (Split (CHR ''/'') path) [])) ''/''
      in if rooted then ''/'' @ s else if s = [] then ''.'' else s)"

section \<open>White space\<close>

definition ascii_space :: "char \<Rightarrow> bool" where
  "ascii_space c \<longleftrightarrow> c \<in> {CHR 0x09, CHR 0x0A, CHR 0x0B, CHR 0x0C, CHR 0x0D, CHR 0x20}"

definition space2 :: "char \<Rightarrow> char \<Rightarrow> bool" where
  "space2 a b \<longleftrightarrow> a = CHR 0xC2 \<and> (b = CHR 0x85 \<or> b = CHR 0xA0)"

definition space3 :: "char \<Rightarrow> char \<Rightarrow> char \<Rightarrow> bool" where
  "space3 a b c \<longleftrightarrow>
     a = CHR 0xE1 \<and> b = CHR 0x9A \<and> c = CHR 0x80
   \<or> a = CHR 0xE2 \<and> b = CHR 0x80 \<and>
       c \<in> {CHR 0x80, CHR 0x81, CHR 0x82, CHR 0x83, CHR 0x84, CHR 0x85, CHR 0x86, CHR 0x87, CHR 0x88,
            CHR 0x89, CHR 0x8A, CHR 0xA8, CHR 0xA9, CHR 0xAF}
   \<or> a = CHR 0xE2 \<and> b = CHR 0x81 \<and> c = CHR 0x9F
   \<or> a = CHR 0xE3 \<and> b = CHR 0x80 \<and> c = CHR 0x80"

text \<open>The number of bytes of the white-space character a string starts with, 0 for none.\<close>

fun space_len :: "string \<Rightarrow> nat" where
  "space_len [] = 0"
| "space_len [a] = (if ascii_space a then 1 else 0)"
| "space_len [a, b] = (if ascii_space a then 1 else if space2 a b then 2 else 0)"
| "space_len (a # b # c # s) =
     (if ascii_space a then 1 else if space2 a b then 2 else if space3 a b c then 3 else 0)"

text \<open>The same at the end of a string, given reversed.\<close>

fun rspace_len :: "string \<Rightarrow> nat" where
  "rspace_len [] = 0"
| "rspace_len [c] = (if ascii_space c then 1 else 0)"
| "rspace_len [c, b] = (if ascii_space c then 1 else if space2 b c then 2 else 0)"
| "rspace_len (c # b # a # s) =
     (if ascii_space c then 1 else if space2 b c then 2 else if space3 a b c then 3 else 0)"

function ltrim :: "(string \<Rightarrow> nat) \<Rightarrow> string \<Rightarrow> string" where
  "ltrim f s = (if f s = 0 \<or> s = [] then s else ltrim f (drop (f s) s))"
  by pat_completeness auto
termination
  by (relation "measure (\<lambda>(f, s). length s)") auto

declare ltrim.simps [simp del]

definition TrimSpace :: "string \<Rightarrow> string" where
  "TrimSpace s = rev (ltrim rspace_len (rev (ltrim space_len s)))"

lemma ltrim_id: "f s = 0 \<Longrightarrow> ltrim f s = s"
  by (subst ltrim.simps) simp

lemma ltrim_stops: "ltrim f s = [] \<or> f (ltrim f s) = 0"
proof (induction f s rule: ltrim.induct)
  case (1 f s)
  then show ?case
    by (cases "f s = 0 \<or> s = []") (auto simp: ltrim.simps [of f s])
qed

text \<open>A string with no white-space byte and no multi-byte lead in sight is left alone.\<close>

definition plain_char :: "char \<Rightarrow> bool" where
  "plain_char c \<longleftrightarrow> \<not> ascii_space c \<and> c \<notin> {CHR 0xC2, CHR 0xE1, CHR 0xE2, CHR 0xE3,
     CHR 0x80, CHR 0x81, CHR 0x82, CHR 0x83, CHR 0x84, CHR 0x85, CHR 0x86, CHR 0x87, CHR 0x88,
     CHR 0x89, CHR 0x8A, CHR 0xA8, CHR 0xA9, CHR 0xAF, CHR 0x9F, CHR 0xA0}"

lemma space_len_plain: "plain_char c \<Longrightarrow> space_len (c # s) = 0"
  by (cases "c # s" rule: space_len.cases) (auto simp: plain_char_def space2_def space3_def)

lemma rspace_len_plain: "plain_char c \<Longrightarrow> rspace_len (c # s) = 0"
  by (cases "c # s" rule: rspace_len.cases) (auto simp: plain_char_def space2_def space3_def)

lemma TrimSpace_plain:
  assumes "s \<noteq> []" "plain_char (hd s)" "plain_char (last s)"
  shows "TrimSpace s = s"
proof -
  have "space_len s = 0"
    using assms(1,2) space_len_plain by (cases s) auto
  moreover have "rspace_len (rev s) = 0"
    using assms(1,3) rspace_len_plain [of "last s" "rev (butlast s)"]
    by (metis append_butlast_last_id rev.simps(2) rev_rev_ident rev_append append_Cons
        append_Nil rev_singleton_conv)
  ultimately show ?thesis by (simp add: TrimSpace_def ltrim_id)
qed

lemma TrimSpace_Nil [simp]: "TrimSpace [] = []"
  by (simp add: TrimSpace_def ltrim_id)

text \<open>\<open>strings.Fields\<close>: the maximal runs of bytes between white space.\<close>

function fields_go :: "string \<Rightarrow> string \<Rightarrow> string list" where
  "fields_go acc [] = (if acc = [] then [] else [rev acc])"
| "fields_go acc (c # s) =
     (if space_len (c # s) = 0 then fields_go (c # acc) s
      else (if acc = [] then [] else [rev acc]) @ fields_go [] (drop (space_len (c # s)) (c # s)))"
  by pat_completeness auto
termination
  by (relation "measure (\<lambda>(acc, s). length s)") auto

definition Fields :: "string \<Rightarrow> string list" where
  "Fields s = fields_go [] s"

lemma fields_go_plain_append:
  "list_all plain_char w \<Longrightarrow> fields_go acc (w @ s) = fields_go (rev w @ acc) s"
  by (induction w arbitrary: acc) (simp_all add: space_len_plain)

lemma Fields_word: "w \<noteq> [] \<Longrightarrow> list_all plain_char w \<Longrightarrow> Fields w = [w]"
  using fields_go_plain_append [of w "[]" "[]"] by (simp add: Fields_def)

lemma space_len_blank [simp]: "space_len (CHR '' '' # s) = 1"
  by (cases "CHR '' '' # s" rule: space_len.cases) (auto simp: ascii_space_def)

lemma Fields_word_blank:
  assumes "w \<noteq> []" "list_all plain_char w"
  shows "Fields (w @ CHR '' '' # s) = w # Fields s"
  using assms fields_go_plain_append [of w "[]" "CHR '' '' # s"] by (simp add: Fields_def)

text \<open>Words joined by single blanks come back as they were.\<close>

lemma Fields_Join:
  assumes "\<forall>w \<in> set ws. w \<noteq> [] \<and> list_all plain_char w"
  shows "Fields (Join ws '' '') = ws"
  using assms
proof (induction ws)
  case Nil
  show ?case by (simp add: Fields_def)
next
  case (Cons w ws)
  then show ?case
    by (cases ws) (simp_all add: Fields_word Fields_word_blank)
qed

section \<open>Case folding\<close>

definition ascii_lower :: "char \<Rightarrow> char" where
  "ascii_lower c = (let k = of_char c :: nat in if 65 \<le> k \<and> k \<le> 90 then char_of (k + 32) else c)"

text \<open>
  \<open>strings.EqualFold(s, t)\<close> for a \<open>t\<close> made of ASCII letters other than k and s: those letters
  have no other characters in their folding orbit, so ASCII folding is exact.
\<close>

definition EqualFold :: "string \<Rightarrow> string \<Rightarrow> bool" where
  "EqualFold s t \<longleftrightarrow> map ascii_lower s = map ascii_lower t"

end
