(* ===== verification/Tenant_Token.thy ===== *)
theory Tenant_Token
  imports Go_Text
begin

text \<open>
  \<open>pkg/tenant/token.go\<close>: the identity facts of a token and the minter. The JWT library
  (\<open>lestrrat-go/jwx\<close>) is a parameter, the record \<open>jwx_signer\<close>: whether the builder and the header
  setters succeed, and the text that signing gives.
\<close>

definition TokenType :: string where
  "TokenType = ''at+jwt''"

definition ScopeWriteEvents :: string where
  "ScopeWriteEvents = ''write:events''"

record Claims =
  c_TenantID :: string
  c_InstallID :: string
  c_Scope :: string
  c_TrustTier :: uint8

text \<open>What the builder chain of \<open>Mint\<close> describes: the registered claims and the private ones.\<close>

datatype claim_val = CString string | CInt int

record jwt_build =
  jb_iss :: string
  jb_aud :: "string list"
  jb_iat :: gotime
  jb_nbf :: gotime
  jb_exp :: gotime
  jb_claims :: "(string \<times> claim_val) list"

text \<open>The protected headers \<open>Mint\<close> sets, the algorithm it signs with included.\<close>

record sign_headers =
  sh_alg :: string
  sh_typ :: string
  sh_kid :: string

record jwx_signer =
  jx_Build :: "jwt_build \<Rightarrow> bool"
  jx_HdrSet :: "string \<Rightarrow> string \<Rightarrow> bool"
  jx_Import :: "string \<Rightarrow> string option"
  jx_Sign :: "sign_headers \<Rightarrow> string \<Rightarrow> jwt_build \<Rightarrow> string option"

record Minter =
  m_kid :: string
  m_key :: string
  m_issuer :: string
  m_audience :: string
  m_ttl :: duration

definition NewMinter ::
  "jwx_signer \<Rightarrow> string \<Rightarrow> string \<Rightarrow> string \<Rightarrow> string \<Rightarrow> duration \<Rightarrow> Minter option" where
  "NewMinter J kid priv issuer audience ttl = (case jx_Import J priv of
      None \<Rightarrow> None
    | Some key \<Rightarrow> Some \<lparr>m_kid = kid, m_key = key, m_issuer = issuer, m_audience = audience, m_ttl = ttl\<rparr>)"

datatype mint_error = BuildToken | SetTypHeader | SetKidHeader | SignToken

definition token_of :: "Minter \<Rightarrow> Claims \<Rightarrow> gotime \<Rightarrow> jwt_build" where
  "token_of m c now =
     \<lparr>jb_iss = m_issuer m, jb_aud = [m_audience m], jb_iat = now, jb_nbf = now, jb_exp = now + m_ttl m,
      jb_claims = [(''tenant_id'', CString (c_TenantID c)), (''install_id'', CString (c_InstallID c)),
                   (''scope'', CString (c_Scope c)), (''trust_tier'', CInt (uint (c_TrustTier c)))]\<rparr>"

definition headers_of :: "Minter \<Rightarrow> sign_headers" where
  "headers_of m = \<lparr>sh_alg = ''EdDSA'', sh_typ = TokenType, sh_kid = m_kid m\<rparr>"

definition Mint :: "jwx_signer \<Rightarrow> Minter \<Rightarrow> Claims \<Rightarrow> gotime \<Rightarrow> mint_error + string \<times> int64" where
  "Mint J m c now =
     (let tok = token_of m c now in
      if \<not> jx_Build J tok then Inl BuildToken
      else if \<not> jx_HdrSet J ''typ'' TokenType then Inl SetTypHeader
      else if \<not> jx_HdrSet J ''kid'' (m_kid m) then Inl SetKidHeader
      else case jx_Sign J (headers_of m) (m_key m) tok of
             None \<Rightarrow> Inl SignToken
           | Some txt \<Rightarrow> Inr (txt, word_of_int (whole_seconds (m_ttl m))))"

lemma Mint_Inr:
  assumes "Mint J m c now = Inr (s, n)"
  shows "jx_Sign J (headers_of m) (m_key m) (token_of m c now) = Some s"
    and "n = word_of_int (whole_seconds (m_ttl m))"
  using assms by (auto simp: Mint_def Let_def split: if_splits option.splits)

end
