(* ===== verification/Clickhouse.thy ===== *)
theory Clickhouse
  imports Go_Prelude
begin

text \<open>
  \<open>pkg/clickhouse/insert.go\<close>: the storage row and the insert path. The driver is a parameter: which
  of its calls fail and what a \<open>Send\<close> has flushed when it returns. The \<open>events\<close> table is the list
  of rows flushed so far. The JSON text of the \<open>props\<close> column is represented by the object it
  denotes, a list of key and scalar in the order of the text.
\<close>

datatype json_scalar = JString string | JNumber float64 | JBool bool

type_synonym json_object = "(string \<times> json_scalar) list"

record Row =
  r_TenantID :: string
  r_EventID :: string
  r_Name :: string
  r_TS :: gotime
  r_TSClient :: gotime
  r_TSReceived :: gotime
  r_UserID :: string
  r_AnonymousID :: string
  r_DeviceID :: string
  r_SessionID :: string
  r_Seq :: uint64
  r_AppVersion :: string
  r_SDKVersion :: string
  r_OS :: string
  r_OSVersion :: string
  r_Locale :: string
  r_TrustTier :: uint8
  r_InstallID :: string
  r_Props :: json_object

text \<open>
  The sort key of the \<open>events\<close> table: rows that agree on it collapse into one. The column \<open>ts\<close> is a
  \<open>DateTime64(3)\<close>, which keeps milliseconds.
\<close>

definition sort_key_of :: "Row \<Rightarrow> string \<times> string \<times> int \<times> string" where
  "sort_key_of r = (r_TenantID r, r_Name r, r_TS r div Millisecond, r_EventID r)"

record ch_conn =
  ch_PrepareBatch :: bool
  ch_Append :: "Row \<Rightarrow> bool"
  ch_Send :: "Row list \<Rightarrow> bool \<times> Row list"

datatype insert_error = ErrPrepare | ErrAppend string | ErrSend

fun append_rows :: "ch_conn \<Rightarrow> Row list \<Rightarrow> Row list \<Rightarrow> insert_error + Row list" where
  "append_rows C batch [] = Inr batch"
| "append_rows C batch (r # rs) =
     (if ch_Append C r then append_rows C (batch @ [r]) rs else Inl (ErrAppend (r_EventID r)))"

definition InsertEvents :: "ch_conn \<Rightarrow> Row list \<Rightarrow> Row list \<Rightarrow> insert_error option \<times> Row list" where
  "InsertEvents C rows table =
     (if rows = [] then (None, table)
      else if \<not> ch_PrepareBatch C then (Some ErrPrepare, table)
      else case append_rows C [] rows of
        Inl err \<Rightarrow> (Some err, table)
      | Inr batch \<Rightarrow> (case ch_Send C batch of (ok, flushed) \<Rightarrow>
          (if ok then None else Some ErrSend, table @ flushed)))"

text \<open>
  What \<open>wait_for_async_insert=1\<close> promises: a \<open>Send\<close> that reports success has flushed every row of
  the batch. One that reports an error may have flushed any part of it.
\<close>

definition waits_for_flush :: "ch_conn \<Rightarrow> bool" where
  "waits_for_flush C \<longleftrightarrow> (\<forall>rows flushed. ch_Send C rows = (True, flushed) \<longrightarrow> flushed = rows)"

lemma append_rows_Inr: "append_rows C batch rows = Inr b \<longleftrightarrow> list_all (ch_Append C) rows \<and> b = batch @ rows"
  by (induction rows arbitrary: batch) auto

lemma InsertEvents_ok:
  assumes "waits_for_flush C" "InsertEvents C rows table = (None, table')"
  shows "table' = table @ rows"
  using assms
  by (auto simp: InsertEvents_def waits_for_flush_def append_rows_Inr
      split: if_splits sum.splits prod.splits)

lemma InsertEvents_extends: "\<exists>flushed. snd (InsertEvents C rows table) = table @ flushed"
  by (auto simp: InsertEvents_def split: sum.splits prod.splits)

text \<open>
  The insert path never acknowledges what it has not written: when \<open>InsertEvents\<close> returns no
  error, the table has grown by exactly the given rows, in order; and an error raised before the
  batch was sent leaves the table as it was.
\<close>

lemma InsertEvents_ack_is_durable:
  assumes "waits_for_flush C"
  shows "case InsertEvents C rows table of
      (None, table') \<Rightarrow> table' = table @ rows
    | (Some ErrSend, table') \<Rightarrow> (\<exists>flushed. table' = table @ flushed)
    | (Some _, table') \<Rightarrow> table' = table"
proof -
  have pre: "err = ErrPrepare \<or> (\<exists>i. err = ErrAppend i) \<Longrightarrow>
      InsertEvents C rows table = (Some err, table') \<Longrightarrow> table' = table" for err table'
    by (auto simp: InsertEvents_def split: if_splits sum.splits prod.splits)
  show ?thesis
    using InsertEvents_ok [OF assms, of rows table] InsertEvents_extends [of C rows table] pre
    by (cases "InsertEvents C rows table") (auto split: option.splits insert_error.splits)
qed

definition sample_row :: Row where
  "sample_row = \<lparr>r_TenantID = ''t1'', r_EventID = ''e1'', r_Name = ''n'', r_TS = 0, r_TSClient = 0,
     r_TSReceived = 0, r_UserID = [], r_AnonymousID = [], r_DeviceID = ''d'', r_SessionID = ''s'',
     r_Seq = 0, r_AppVersion = [], r_SDKVersion = [], r_OS = [], r_OSVersion = [], r_Locale = [],
     r_TrustTier = 1, r_InstallID = ''i'', r_Props = []\<rparr>"

definition sync_conn :: ch_conn where
  "sync_conn = \<lparr>ch_PrepareBatch = True, ch_Append = (\<lambda>_. True), ch_Send = (\<lambda>rows. (True, rows))\<rparr>"

lemma sync_conn_waits: "waits_for_flush sync_conn"
  by (simp add: waits_for_flush_def sync_conn_def)

end
