(* ===== verification/Enrich.thy ===== *)
theory Enrich
  imports Wire Validate Tenant_Token Clickhouse "HOL-Library.List_Lexorder" "HOL-Library.Char_ord"
begin

text \<open>
  \<open>services/ingest/internal/enrich\<close>: from a validated envelope and verified claims to a storage
  row. Clock-skew correction with its clamp, the first-contact offset of a session and the two
  stores that keep it (\<open>MemoryOffsetStore\<close>, \<open>PostgresOffsetStore\<close>), which both meet the interface
  \<open>OffsetStore\<close>, the locale \<open>offset_store\<close> here. Milliseconds are \<open>int64\<close> and wrap; instants do not.
\<close>

section \<open>Skew correction (skew.go)\<close>

definition MaxFutureSkew :: duration where "MaxFutureSkew = 24 * Hour"
definition MaxPastSkew :: duration where "MaxPastSkew = 30 * 24 * Hour"

lemmas skew_consts = MaxFutureSkew_def MaxPastSkew_def

definition Correct :: "int64 \<Rightarrow> int64 \<Rightarrow> gotime \<Rightarrow> gotime \<times> bool" where
  "Correct tsClientMS offsetMS receivedAt =
     (let ts = time_UnixMilli (tsClientMS + offsetMS)
      in if time_Sub ts receivedAt > MaxFutureSkew then (receivedAt, True)
         else if time_Sub receivedAt ts > MaxPastSkew then (receivedAt, True)
         else (ts, False))"

definition CandidateOffset :: "int64 \<Rightarrow> gotime \<Rightarrow> int64" where
  "CandidateOffset sentAtMS receivedAt =
     (if sint sentAtMS \<le> 0 then 0
      else let offset = UnixMilli receivedAt - sentAtMS
           in if sint offset > MaxPastSkew div Millisecond \<or> sint offset < - (MaxFutureSkew div Millisecond)
              then 0 else offset)"

lemma Correct_eq:
  "Correct ms off r =
     (let ts = time_UnixMilli (ms + off)
      in if r - MaxPastSkew \<le> ts \<and> ts \<le> r + MaxFutureSkew then (ts, False) else (r, True))"
  by (auto simp: Correct_def Let_def time_Sub_gt skew_consts)

text \<open>
  The corrected time of a row always lies within 30 days before and 24 hours after the
  server's receipt, whatever the device claims, the wrap-around of the millisecond sum and the
  saturation of Go's durations included; it is the receipt time itself exactly when it was clamped
  for that reason, and the device's time plus the session offset otherwise.
\<close>

lemma Correct_in_window:
  "let (ts, clamped) = Correct ms off r; raw = time_UnixMilli (ms + off)
   in r - 30 * 24 * Hour \<le> ts \<and> ts \<le> r + 24 * Hour
    \<and> (clamped = (raw < r - 30 * 24 * Hour \<or> r + 24 * Hour < raw))
    \<and> ts = (if clamped then r else raw)"
  by (auto simp: Correct_eq Let_def skew_consts)

lemma CandidateOffset_cases:
  "CandidateOffset s r = 0 \<or> (0 < sint s \<and> CandidateOffset s r = UnixMilli r - s
     \<and> - 86400000 \<le> sint (UnixMilli r - s) \<and> sint (UnixMilli r - s) \<le> 2592000000)"
  by (auto simp: CandidateOffset_def Let_def skew_consts)

lemma CandidateOffset_bound:
  "- 86400000 \<le> sint (CandidateOffset s r) \<and> sint (CandidateOffset s r) \<le> 2592000000"
  using CandidateOffset_cases [of s r] by auto

lemma sint_add_int64:
  assumes "- (2 ^ 63) \<le> sint a + sint b" "sint a + sint b < 2 ^ 63"
  shows "sint (a + b :: int64) = sint a + sint b"
proof -
  have "a + b = word_of_int (sint a + sint b)" by simp
  then show ?thesis using assms by (simp only: sint_int64)
qed

text \<open>
  C36. A validated event never overflows: its client time plus any offset the service can pin for a
  session is the exact sum of the two, so the corrected time is the device's time shifted by the
  offset in milliseconds.
\<close>

theorem validated_time_no_overflow:
  assumes "validate_Event u e = None"
  shows "time_UnixMilli (e_TsClient e + CandidateOffset s r) =
    time_UnixMilli (e_TsClient e) + sint (CandidateOffset s r) * Millisecond"
proof -
  have "- 2208988800000 \<le> sint (e_TsClient e)" "sint (e_TsClient e) \<le> 10413791999999"
    using assms by (simp_all add: validate_None_iff valid_event_def)
  with CandidateOffset_bound [of s r]
  have "sint (e_TsClient e + CandidateOffset s r) = sint (e_TsClient e) + sint (CandidateOffset s r)"
    by (intro sint_add_int64) simp_all
  then show ?thesis by (simp add: time_UnixMilli_def distrib_right)
qed

theorem validated_time_no_overflow_witness:
  "time_UnixMilli (e_TsClient sample_event + CandidateOffset 1754092800000 1754092801000000000) =
    time_UnixMilli (e_TsClient sample_event)
      + sint (CandidateOffset 1754092800000 1754092801000000000) * Millisecond"
proof (rule validated_time_no_overflow [of Some])
  show "validate_Event Some sample_event = None"
    by (simp add: validate_None_iff valid_event_def sample_event_def)
qed

section \<open>The storage row (enrich.go)\<close>

fun scalar_of :: "Value \<Rightarrow> json_scalar option" where
  "scalar_of None = None"
| "scalar_of (Some (StringValue s)) = Some (JString s)"
| "scalar_of (Some (NumberValue x)) = Some (JNumber x)"
| "scalar_of (Some (BoolValue b)) = Some (JBool b)"

text \<open>The loop that fills the map \<open>flat\<close>; an entry without a value is left out.\<close>

fun flatten_props :: "(string \<times> Value) list \<Rightarrow> (string \<times> json_scalar) list" where
  "flatten_props [] = []"
| "flatten_props ((k, v) # ps) =
     (case scalar_of v of None \<Rightarrow> flatten_props ps | Some x \<Rightarrow> (k, x) # flatten_props ps)"

text \<open>\<open>json.Marshal\<close> of a map: keys in byte order; it refuses a NaN or an infinity.\<close>

fun marshalable :: "json_scalar \<Rightarrow> bool" where
  "marshalable (JNumber x) = finite_float x"
| "marshalable _ = True"

definition json_Marshal :: "(string \<times> json_scalar) list \<Rightarrow> json_object option" where
  "json_Marshal flat = (if list_all (marshalable \<circ> snd) flat then Some (sort_key fst flat) else None)"

definition propsJSON :: "(string \<times> Value) list \<Rightarrow> json_object" where
  "propsJSON props =
     (if props = [] then []
      else case json_Marshal (flatten_props props) of None \<Rightarrow> [] | Some b \<Rightarrow> b)"

definition enrich_Row :: "Event \<Rightarrow> Claims \<Rightarrow> int64 \<Rightarrow> gotime \<Rightarrow> Row \<times> bool" where
  "enrich_Row e c offsetMS receivedAt =
     (case Correct (e_TsClient e) offsetMS receivedAt of (ts, clamped) \<Rightarrow>
       (\<lparr>r_TenantID = c_TenantID c, r_EventID = e_EventId e, r_Name = e_Name e, r_TS = ts,
         r_TSClient = time_UnixMilli (e_TsClient e), r_TSReceived = receivedAt,
         r_UserID = e_UserId e, r_AnonymousID = e_AnonymousId e, r_DeviceID = e_DeviceId e,
         r_SessionID = e_SessionId e, r_Seq = e_Seq e,
         r_AppVersion = GetAppVersion (e_Context e), r_SDKVersion = GetSdkVersion (e_Context e),
         r_OS = GetOs (e_Context e), r_OSVersion = GetOsVersion (e_Context e),
         r_Locale = GetLocale (e_Context e),
         r_TrustTier = c_TrustTier c, r_InstallID = c_InstallID c,
         r_Props = propsJSON (e_Props e)\<rparr>, clamped))"

lemma enrich_Row_fields [simp]:
  "r_TenantID (fst (enrich_Row e c off r)) = c_TenantID c"
  "r_InstallID (fst (enrich_Row e c off r)) = c_InstallID c"
  "r_TrustTier (fst (enrich_Row e c off r)) = c_TrustTier c"
  "r_EventID (fst (enrich_Row e c off r)) = e_EventId e"
  "r_Name (fst (enrich_Row e c off r)) = e_Name e"
  "r_DeviceID (fst (enrich_Row e c off r)) = e_DeviceId e"
  "r_SessionID (fst (enrich_Row e c off r)) = e_SessionId e"
  "r_TSReceived (fst (enrich_Row e c off r)) = r"
  "r_TS (fst (enrich_Row e c off r)) = fst (Correct (e_TsClient e) off r)"
  "snd (enrich_Row e c off r) = snd (Correct (e_TsClient e) off r)"
  by (simp_all add: enrich_Row_def split: prod.splits)

lemma flatten_props_keys: "set (map fst (flatten_props ps)) \<subseteq> set (map fst ps)"
  by (induction ps rule: flatten_props.induct) (auto split: option.splits)

lemma flatten_props_map_of:
  "map_of (flatten_props ps) k =
     (case map_of ps k of None \<Rightarrow> None | Some v \<Rightarrow> scalar_of v)" if "distinct (map fst ps)"
  using that
proof (induction ps)
  case (Cons p ps)
  obtain k' v where p: "p = (k', v)" by (cases p)
  have "k' \<notin> fst ` set ps \<Longrightarrow> map_of (flatten_props ps) k' = None"
    using flatten_props_keys [of ps] by (auto simp: map_of_eq_None_iff)
  with Cons p show ?case by (auto split: option.splits)
qed simp

lemma flatten_props_marshalable:
  "\<forall>(k, v) \<in> set ps. valid_value v \<Longrightarrow> list_all (marshalable \<circ> snd) (flatten_props ps)"
proof (induction ps)
  case (Cons p ps)
  obtain k v where p: "p = (k, v)" by (cases p)
  with Cons show ?case by (cases v rule: valid_value.cases) auto
qed simp

lemma flatten_props_distinct: "distinct (map fst ps) \<Longrightarrow> distinct (map fst (flatten_props ps))"
proof (induction ps rule: flatten_props.induct)
  case (2 k v ps)
  then show ?case using flatten_props_keys [of ps] by (auto split: option.splits)
qed simp

lemma flatten_props_mset: "mset ps = mset qs \<Longrightarrow> mset (flatten_props ps) = mset (flatten_props qs)"
proof -
  have "mset (flatten_props ps) =
      sum_mset (image_mset (\<lambda>(k, v). case scalar_of v of None \<Rightarrow> {#} | Some x \<Rightarrow> {#(k, x)#}) (mset ps))" for ps
    by (induction ps rule: flatten_props.induct) (auto split: option.splits)
  then show "mset ps = mset qs \<Longrightarrow> ?thesis" by simp
qed

lemma map_of_sort_key: "distinct (map fst xs) \<Longrightarrow> map_of (sort_key fst xs) = map_of xs"
  by (rule map_of_inject_set [THEN iffD2]) (simp_all add: distinct_map inj_on_def)

lemma propsJSON_valid:
  assumes "\<forall>(k, v) \<in> set ps. valid_value v"
  shows "propsJSON ps = sort_key fst (flatten_props ps)"
  using flatten_props_marshalable [OF assms] by (simp add: propsJSON_def json_Marshal_def)

lemma sort_key_fst_cong:
  assumes "mset xs = mset ys" "distinct (map fst xs)"
  shows "sort_key fst xs = sort_key fst ys"
proof (rule map_sorted_distinct_set_unique [where f = fst])
  have s: "set ys = set xs" using assms(1) by (metis mset_eq_setD)
  have "distinct (map fst ys)"
    using assms by (metis mset_map mset_eq_imp_distinct_iff)
  then show "distinct (map fst (sort_key fst xs))" "distinct (map fst (sort_key fst ys))"
    using assms(2) by (simp_all add: distinct_map)
  show "inj_on fst (set (sort_key fst xs) \<union> set (sort_key fst ys))"
    using assms(2) by (simp add: s distinct_map)
  show "set (sort_key fst xs) = set (sort_key fst ys)" by (simp add: s)
  show "sorted (map fst (sort_key fst xs))" "sorted (map fst (sort_key fst ys))" by simp_all
qed

lemma propsJSON_order:
  assumes "\<forall>(k, v) \<in> set ps. valid_value v" "distinct (map fst ps)" "mset qs = mset ps"
  shows "propsJSON qs = propsJSON ps"
proof -
  have "\<forall>(k, v) \<in> set qs. valid_value v"
    using assms(1,3) by (metis mset_eq_setD)
  then show ?thesis
    using assms flatten_props_mset [of qs ps] sort_key_fst_cong [of "flatten_props ps" "flatten_props qs"]
    by (simp add: propsJSON_valid flatten_props_distinct)
qed

text \<open>
  No property of a validated event is lost or changed on its way to storage: looking a key up in
  the stored object gives the scalar of the envelope's value, for every key, and the fallback to an
  empty object is never taken. The object's keys are in byte order, and the object does not depend
  on the order \<open>ps\<close> in which Go visits the map.
\<close>

lemma propsJSON_complete:
  assumes "validate_Event u e = None" "distinct (map fst (e_Props e))" "mset ps = mset (e_Props e)"
  shows "map_of (propsJSON (e_Props e)) k = Option.bind (map_of (e_Props e) k) scalar_of
    \<and> sorted (map fst (propsJSON (e_Props e))) \<and> propsJSON ps = propsJSON (e_Props e)"
proof -
  have st: "\<forall>(k, v) \<in> set (e_Props e). valid_value v"
    using assms(1) by (auto simp: validate_None_iff valid_event_def)
  show ?thesis
    using assms(2) propsJSON_order [OF st assms(2,3)]
    by (simp add: propsJSON_valid [OF st] map_of_sort_key flatten_props_distinct
        flatten_props_map_of split: option.splits)
qed

end
