(* ===== verification/Offset_Store.thy ===== *)
theory Offset_Store
  imports Enrich
begin

text \<open>
  The session offsets of \<open>services/ingest/internal/enrich\<close>: the interface \<open>OffsetStore\<close> as the locale
  \<open>offset_store\<close> (the first offset stored for a session is the one everybody gets), and its two
  implementations, the map of \<open>skew.go\<close> and the upsert of \<open>postgres_offset_store.go\<close>. Every call is
  atomic (a mutex, one SQL statement), so concurrent requests from any number of pods are a
  sequence of calls, \<open>get_all\<close>.
\<close>

record SessionKey =
  sk_TenantID :: string
  sk_DeviceID :: string
  sk_SessionID :: string

section \<open>Sequences of calls\<close>

fun get_all :: "(gotime \<Rightarrow> SessionKey \<Rightarrow> int64 \<Rightarrow> 's \<Rightarrow> int64 \<times> 's) \<Rightarrow>
    (gotime \<times> SessionKey \<times> int64) list \<Rightarrow> 's \<Rightarrow> int64 list \<times> 's" where
  "get_all gos [] s = ([], s)"
| "get_all gos ((t, k, c) # calls) s =
     (case gos t k c s of (v, s') \<Rightarrow> (case get_all gos calls s' of (vs, s'') \<Rightarrow> (v # vs, s'')))"

section \<open>The interface\<close>

locale offset_store =
  fixes GetOrSet :: "gotime \<Rightarrow> SessionKey \<Rightarrow> int64 \<Rightarrow> 's \<Rightarrow> int64 \<times> 's"
    and offset_of :: "'s \<Rightarrow> SessionKey \<Rightarrow> int64 option"
  assumes returns: "fst (GetOrSet t k c s) = (case offset_of s k of None \<Rightarrow> c | Some v \<Rightarrow> v)"
    and stores: "offset_of (snd (GetOrSet t k c s)) = (offset_of s)(k \<mapsto> fst (GetOrSet t k c s))"
begin

lemma returned_is_stored: "GetOrSet t k c s = (v, s') \<Longrightarrow> offset_of s' k = Some v"
  using stores [of t k c s] by simp

lemma stored_stays:
  assumes "offset_of s k = Some v"
  shows "offset_of (snd (GetOrSet t k' c s)) k = Some v"
  using assms stores [of t k' c s] returns [of t k' c s] by auto

lemma get_all_stays: "offset_of s k = Some v \<Longrightarrow> offset_of (snd (get_all GetOrSet calls s)) k = Some v"
proof (induction calls arbitrary: s)
  case (Cons call calls)
  obtain t k' c where call: "call = (t, k', c)" by (cases call)
  obtain w s' where st: "GetOrSet t k' c s = (w, s')" by (cases "GetOrSet t k' c s")
  with stored_stays [OF Cons.prems, of t k' c] have "offset_of s' k = Some v" by simp
  with Cons.IH [of s'] show ?case by (simp add: call st case_prod_unfold)
qed simp

text \<open>Every call's result is what the store holds for its session in the end.\<close>

lemma get_all_result:
  "i < length calls \<Longrightarrow> calls ! i = (t, k, c) \<Longrightarrow>
     offset_of (snd (get_all GetOrSet calls s)) k = Some (fst (get_all GetOrSet calls s) ! i)"
proof (induction calls arbitrary: s i)
  case (Cons call calls)
  obtain t' k' c' where call: "call = (t', k', c')" by (cases call)
  obtain w s' where st: "GetOrSet t' k' c' s = (w, s')" by (cases "GetOrSet t' k' c' s")
  show ?case
  proof (cases i)
    case 0
    with Cons.prems call have "k' = k" by simp
    with returned_is_stored [OF st] have "offset_of s' k = Some w" by simp
    from get_all_stays [OF this, of calls] show ?thesis
      by (simp add: call st 0 case_prod_unfold)
  next
    case (Suc j)
    with Cons.IH [of j s'] Cons.prems show ?thesis
      by (simp add: call st case_prod_unfold)
  qed
qed simp

lemma calls_agree:
  assumes "i < length calls" "j < length calls" "calls ! i = (t, k, c)" "calls ! j = (t', k, c')"
  shows "fst (get_all GetOrSet calls s) ! i = fst (get_all GetOrSet calls s) ! j"
  using get_all_result [OF assms(1,3), of s] get_all_result [OF assms(2,4), of s] by simp

lemma first_candidate_wins:
  assumes "offset_of s k = None" "k \<notin> (\<lambda>(t, k, c). k) ` set before"
  shows "offset_of (snd (get_all GetOrSet (before @ (t, k, c) # after) s)) k = Some c"
  using assms
proof (induction before arbitrary: s)
  case Nil
  have "fst (GetOrSet t k c s) = c" using returns [of t k c s] Nil by simp
  then obtain s' where st: "GetOrSet t k c s = (c, s')" by (cases "GetOrSet t k c s") simp
  from get_all_stays [OF returned_is_stored [OF st], of after] show ?case
    by (simp add: st case_prod_unfold)
next
  case (Cons call before)
  obtain t' k' c' where call: "call = (t', k', c')" by (cases call)
  obtain w s' where st: "GetOrSet t' k' c' s = (w, s')" by (cases "GetOrSet t' k' c' s")
  have "offset_of s' k = None"
    using stores [of t' k' c' s] Cons.prems call st by auto
  with Cons.IH [of s'] Cons.prems(2) show ?case
    by (simp add: call st case_prod_unfold)
qed

end

section \<open>The in-process store (skew.go)\<close>

type_synonym MemoryOffsetStore = "SessionKey \<Rightarrow> int64 option"

definition NewMemoryOffsetStore :: MemoryOffsetStore where
  "NewMemoryOffsetStore = Map.empty"

definition Memory_GetOrSet :: "gotime \<Rightarrow> SessionKey \<Rightarrow> int64 \<Rightarrow> MemoryOffsetStore \<Rightarrow> int64 \<times> MemoryOffsetStore" where
  "Memory_GetOrSet t k candidate m = (case m k of Some v \<Rightarrow> (v, m) | None \<Rightarrow> (candidate, m(k \<mapsto> candidate)))"

interpretation mem_store: offset_store Memory_GetOrSet "\<lambda>m. m"
  by unfold_locales (auto simp: Memory_GetOrSet_def split: option.splits)

section \<open>The Postgres store (postgres\_offset\_store.go)\<close>

record offset_row =
  so_offset_ms :: int64
  so_created_at :: gotime
  so_last_seen :: gotime

type_synonym session_offsets = "SessionKey \<Rightarrow> offset_row option"

text \<open>
  \<open>INSERT ... ON CONFLICT DO UPDATE SET offset_ms = session_offsets.offset_ms, last_seen = now()
  RETURNING offset_ms\<close>, one statement: a row that exists keeps its offset and is touched.
\<close>

definition Postgres_GetOrSet :: "gotime \<Rightarrow> SessionKey \<Rightarrow> int64 \<Rightarrow> session_offsets \<Rightarrow> int64 \<times> session_offsets" where
  "Postgres_GetOrSet t k candidate m = (case m k of
      Some r \<Rightarrow> (so_offset_ms r, m(k \<mapsto> r\<lparr>so_last_seen := t\<rparr>))
    | None \<Rightarrow> (candidate, m(k \<mapsto> \<lparr>so_offset_ms = candidate, so_created_at = t, so_last_seen = t\<rparr>)))"

definition offset_ms_of :: "session_offsets \<Rightarrow> SessionKey \<Rightarrow> int64 option" where
  "offset_ms_of m k = map_option so_offset_ms (m k)"

interpretation pg_store: offset_store Postgres_GetOrSet offset_ms_of
  by unfold_locales (auto simp: Postgres_GetOrSet_def offset_ms_of_def fun_eq_iff split: option.splits)

section \<open>Properties\<close>

text \<open>
  Every request of a session gets the same clock offset from the Postgres store, whatever the
  candidates, the times and the interleaving with requests of other sessions and pods.
\<close>

lemma postgres_offsets_agree:
  assumes "i < length calls" "j < length calls" "calls ! i = (t, k, c)" "calls ! j = (t', k, c')"
  shows "fst (get_all Postgres_GetOrSet calls m) ! i = fst (get_all Postgres_GetOrSet calls m) ! j"
  using assms by (rule pg_store.calls_agree)

definition sample_session :: SessionKey where
  "sample_session = \<lparr>sk_TenantID = ''t1'', sk_DeviceID = ''d1'', sk_SessionID = ''s1''\<rparr>"

text \<open>
  C30. The two stores are interchangeable: on any sequence of calls the Postgres store answers what
  the in-process map answers, and holds the same offsets afterwards.
\<close>

theorem stores_equivalent:
  "fst (get_all Postgres_GetOrSet calls m) = fst (get_all Memory_GetOrSet calls (offset_ms_of m))
   \<and> offset_ms_of (snd (get_all Postgres_GetOrSet calls m)) = snd (get_all Memory_GetOrSet calls (offset_ms_of m))"
proof (induction calls arbitrary: m)
  case (Cons call calls)
  obtain t k c where call: "call = (t, k, c)" by (cases call)
  obtain v m' where pg: "Postgres_GetOrSet t k c m = (v, m')" by (cases "Postgres_GetOrSet t k c m")
  have "Memory_GetOrSet t k c (offset_ms_of m) = (v, offset_ms_of m')"
    using pg_store.returns [of t k c m] pg_store.stores [of t k c m] pg
    by (auto simp: Memory_GetOrSet_def split: option.splits)
  with Cons.IH [of m'] show ?case by (simp add: call pg case_prod_unfold)
qed simp

text \<open>
  A retry lands on its original: two deliveries of one event by one tenant with the session's
  offset give rows with the same sort key (tenant, name, time, event id), so that the storage
  engine collapses them, as long as neither delivery was clamped.
\<close>

lemma retry_keeps_sort_key:
  assumes "\<not> snd (enrich_Row e c off r)" "\<not> snd (enrich_Row e c' off r')" "c_TenantID c = c_TenantID c'"
  shows "sort_key_of (fst (enrich_Row e c off r)) = sort_key_of (fst (enrich_Row e c' off r'))"
  using assms by (simp add: sort_key_of_def Correct_eq Let_def split: if_splits)

definition claims_t1 :: Claims where
  "claims_t1 = \<lparr>c_TenantID = ''t1'', c_InstallID = ''ins_1'', c_Scope = ''write:events'', c_TrustTier = 1\<rparr>"

lemma sample_time: "time_UnixMilli (e_TsClient sample_event + 0) = 1754092800000000000"
proof -
  have "sint (e_TsClient sample_event + 0) = 1754092800000"
    using sint_int64 [of 1754092800000] by (simp add: sample_event_def)
  then show ?thesis by (simp add: time_UnixMilli_def)
qed

text \<open>
  C40. When a redelivery collapses: two deliveries of one event with the session's offset, received in different
  milliseconds, give the same sort key exactly when the corrected time is at most 24 hours after the first
  receipt and at most 30 days before the second. Outside that window one of the deliveries is clamped to
  its time of receipt and the storage engine keeps both rows for ever, although the design states that the
  persisted offset keeps the time deterministic per event.
\<close>

theorem redelivery_collapses_iff:
  assumes "r div Millisecond < r' div Millisecond" "c_TenantID c = c_TenantID c'"
  shows "sort_key_of (fst (enrich_Row e c off r)) = sort_key_of (fst (enrich_Row e c' off r')) \<longleftrightarrow>
    r' - 30 * 24 * Hour \<le> time_UnixMilli (e_TsClient e + off) \<and> time_UnixMilli (e_TsClient e + off) \<le> r + 24 * Hour"
proof -
  let ?ts = "time_UnixMilli (e_TsClient e + off)"
  have "r < r'" using assms(1) by (rule contrapos_pp) (simp add: zdiv_mono1)
  have future: "r div Millisecond \<noteq> ?ts div Millisecond" if "r + 24 * Hour < ?ts"
    using that by (simp; linarith)
  have past: "?ts div Millisecond \<noteq> r' div Millisecond" if "?ts < r' - 30 * 24 * Hour"
    using that by (simp; linarith)
  show ?thesis
    using assms \<open>r < r'\<close> future past by (auto simp: sort_key_of_def Correct_eq Let_def skew_consts split: if_splits)
qed

text \<open>A retry a second later, of an event sent at once and of one that waited 31 days in the outbox.\<close>

theorem redelivery_collapses_iff_witness:
  "(let r = 1754092800000000000
    in sort_key_of (fst (enrich_Row sample_event claims_t1 0 r)) = sort_key_of (fst (enrich_Row sample_event claims_t1 0 (r + Second)))) \<and>
   (let r = 1754092800000000000 + 31 * 24 * Hour
    in sort_key_of (fst (enrich_Row sample_event claims_t1 0 r)) \<noteq> sort_key_of (fst (enrich_Row sample_event claims_t1 0 (r + Second))))"
  unfolding Let_def
  by (subst (1 2) redelivery_collapses_iff) (simp_all add: sample_time [simplified])

section \<open>Retention\<close>

text \<open>
  The retention statement the second Postgres migration documents, to be run on a schedule: \<open>DELETE FROM
  session_offsets WHERE last_seen < now() - INTERVAL '30 days'\<close>.
\<close>

definition retention_sweep :: "gotime \<Rightarrow> session_offsets \<Rightarrow> session_offsets" where
  "retention_sweep t m k = (case m k of
      Some r \<Rightarrow> if so_last_seen r < t - 30 * 24 * Hour then None else Some r
    | None \<Rightarrow> None)"

text \<open>Statements on the table in the order the database runs them, each at its clock.\<close>

datatype offset_op = Touch gotime SessionKey int64 | Sweep gotime

fun offset_op_time :: "offset_op \<Rightarrow> gotime" where
  "offset_op_time (Touch t k c) = t"
| "offset_op_time (Sweep t) = t"

fun offset_ops :: "offset_op list \<Rightarrow> session_offsets \<Rightarrow> session_offsets" where
  "offset_ops [] m = m"
| "offset_ops (Touch t k c # xs) m = offset_ops xs (snd (Postgres_GetOrSet t k c m))"
| "offset_ops (Sweep t # xs) m = offset_ops xs (retention_sweep t m)"

definition pinned_since :: "gotime \<Rightarrow> SessionKey \<Rightarrow> int64 \<Rightarrow> session_offsets \<Rightarrow> bool" where
  "pinned_since t k v m \<longleftrightarrow> (\<exists>r. m k = Some r \<and> so_offset_ms r = v \<and> t \<le> so_last_seen r)"

lemma pinned_since_ops:
  "pinned_since t k v m \<Longrightarrow> \<forall>x \<in> set xs. t \<le> offset_op_time x \<and> offset_op_time x \<le> t + 30 * 24 * Hour \<Longrightarrow>
     pinned_since t k v (offset_ops xs m)"
proof (induction xs m rule: offset_ops.induct)
  case (2 u k' c xs m)
  have "pinned_since t k v (snd (Postgres_GetOrSet u k' c m))"
    using "2.prems" by (auto simp: pinned_since_def Postgres_GetOrSet_def split: option.splits)
  with 2 show ?case by simp
next
  case (3 u xs m)
  have "pinned_since t k v (retention_sweep u m)"
    using "3.prems" by (auto simp: pinned_since_def retention_sweep_def)
  with 3 show ?case by simp
qed simp

text \<open>
  C28. Retention never splits a session that is still in use: two requests of one session that the database serves at
  most 30 days apart get the same clock offset, whatever other requests and however many retention
  sweeps run in between, so a retry within the retention period lands on its original.
\<close>

theorem retention_keeps_offsets:
  assumes "sorted (map offset_op_time (Touch t k c # xs @ [Touch t' k c']))" "t' - t \<le> 30 * 24 * Hour"
  shows "fst (Postgres_GetOrSet t' k c' (offset_ops xs (snd (Postgres_GetOrSet t k c m)))) = fst (Postgres_GetOrSet t k c m)"
proof -
  have "pinned_since t k (fst (Postgres_GetOrSet t k c m)) (snd (Postgres_GetOrSet t k c m))"
    by (auto simp: pinned_since_def Postgres_GetOrSet_def split: option.splits)
  then have "pinned_since t k (fst (Postgres_GetOrSet t k c m)) (offset_ops xs (snd (Postgres_GetOrSet t k c m)))"
    by (rule pinned_since_ops) (use assms in \<open>fastforce simp: sorted_append\<close>)
  then show ?thesis by (auto simp: pinned_since_def Postgres_GetOrSet_def)
qed

theorem retention_keeps_offsets_witness:
  "fst (Postgres_GetOrSet (29 * 24 * Hour) sample_session 7
     (offset_ops [Sweep (29 * 24 * Hour)] (snd (Postgres_GetOrSet 0 sample_session 5 Map.empty)))) = 5"
  using retention_keeps_offsets [of 0 sample_session 5 "[Sweep (29 * 24 * Hour)]" "29 * 24 * Hour" 7 Map.empty]
  by (simp add: Postgres_GetOrSet_def)

end
