(* ===== verification/Tenant_Verify.thy ===== *)
theory Tenant_Verify
  imports Tenant_Token
begin

text \<open>
  \<open>pkg/tenant/verify.go\<close>: the JWKS cache of the verifier and the checks on a token.
  The JWT library and the JWKS endpoint are parameters (\<open>jwx\<close>). A parsed header, token or key
  is represented by what its accessors answer, so nothing is assumed of their inside. The cache
  is guarded by a mutex, so concurrent requests are sequences of \<open>key\<close> calls; \<open>v_log\<close> is a history
  variable, the times at which the verifier asked the endpoint.
\<close>

section \<open>The library's data, by its accessors\<close>

record jws_header =
  jh_Algorithm :: "string option"
  jh_typ :: "string option"
  jh_KeyID :: "string option"

text \<open>The outcome of \<open>Token.Get\<close>: a value, an error or a panic.\<close>

datatype 'a get_result = Got 'a | GetError | GetPanic

datatype any_value = AFloat float64 | ANil | AOther

record jwt_token =
  tk_Issuer :: "string option"
  tk_Audience :: "string list option"
  tk_Expiration :: "gotime option"
  tk_NotBefore :: "gotime option"
  tk_Has :: "string \<Rightarrow> bool"
  tk_GetString :: "string \<Rightarrow> string get_result"
  tk_GetAny :: "string \<Rightarrow> any_value get_result"

record jwk =
  jk_KeyID :: "string option"
  jk_KeyUsage :: "string option"
  jk_KeyType :: string
  jk_crv :: "string option"
  jk_public :: string

type_synonym jwk_set = "jwk list"

record jwx =
  jws_Parse :: "string \<Rightarrow> jws_header list option"
  jwt_Parse :: "string \<Rightarrow> jwk \<Rightarrow> jwt_token option"
  jwk_Fetch :: "string \<Rightarrow> gotime \<Rightarrow> jwk_set option"
  LookupKeyID :: "jwk_set \<Rightarrow> string \<Rightarrow> jwk option"
  float_to_int_oor :: "float64 \<Rightarrow> int"

section \<open>Errors, constants and the verifier\<close>

datatype tenant_error =
  ErrBadAlg | ErrBadType | ErrBadIssuer | ErrBadAudience | ErrExpired | ErrBadScope
| ErrUnknownKID | ErrMalformed | ErrLegacyCutoff | ErrLegacyResolve

definition clockSkew :: duration where "clockSkew = 60 * Second"
definition jwksMinRefetch :: duration where "jwksMinRefetch = 30 * Second"
definition jwksTTL :: duration where "jwksTTL = 10 * Minute"
definition jwksStaleGrace :: duration where "jwksStaleGrace = 5 * Minute"

lemmas jwks_consts = jwksMinRefetch_def jwksTTL_def jwksStaleGrace_def

record Verifier =
  v_url :: string
  v_issuer :: string
  v_audience :: string
  v_set :: "jwk_set option"
  v_fetchedAt :: gotime
  v_lastRefetch :: gotime
  v_log :: "gotime list"

definition NewVerifier :: "string \<Rightarrow> string \<Rightarrow> string \<Rightarrow> Verifier" where
  "NewVerifier url issuer audience =
     \<lparr>v_url = url, v_issuer = issuer, v_audience = audience, v_set = None,
      v_fetchedAt = zero_time, v_lastRefetch = zero_time, v_log = []\<rparr>"

section \<open>Operations\<close>

definition stripBearer :: "string \<Rightarrow> string" where
  "stripBearer bearer = (case Cut (CHR '' '') bearer of
      Some (scheme, rest) \<Rightarrow> if EqualFold scheme ''Bearer'' then TrimSpace rest else bearer
    | None \<Rightarrow> bearer)"

text \<open>The key-shape requirements: \<open>use=sig\<close>, \<open>kty=OKP\<close>, \<open>crv=Ed25519\<close>.\<close>

definition lookup :: "jwx \<Rightarrow> jwk_set option \<Rightarrow> string \<Rightarrow> jwk option" where
  "lookup X st kid = (case st of
      None \<Rightarrow> None
    | Some s \<Rightarrow> (case LookupKeyID X s kid of
        None \<Rightarrow> None
      | Some k \<Rightarrow>
          if jk_KeyUsage k \<noteq> Some ''sig'' then None
          else if jk_KeyType k \<noteq> ''OKP'' then None
          else if jk_crv k \<noteq> Some ''Ed25519'' then None
          else Some k))"

definition refetchLocked :: "jwx \<Rightarrow> gotime \<Rightarrow> Verifier \<Rightarrow> bool \<times> Verifier" where
  "refetchLocked X now v =
     (let v1 = v\<lparr>v_lastRefetch := now, v_log := v_log v @ [now]\<rparr>
      in case jwk_Fetch X (v_url v) now of
           None \<Rightarrow> (False, v1)
         | Some s \<Rightarrow> (True, v1\<lparr>v_set := Some s, v_fetchedAt := now\<rparr>))"

definition key_stale :: "gotime \<Rightarrow> Verifier \<Rightarrow> bool" where
  "key_stale now v \<longleftrightarrow> v_set v = None \<or> time_Sub now (v_fetchedAt v) > jwksTTL"

text \<open>The refresh of a stale cache: whether it failed, and the verifier after it.\<close>

definition key_refresh :: "jwx \<Rightarrow> gotime \<Rightarrow> Verifier \<Rightarrow> bool \<times> Verifier" where
  "key_refresh X now v =
     (if key_stale now v then
        (if time_Sub now (v_lastRefetch v) \<ge> jwksMinRefetch
         then (case refetchLocked X now v of (ok, v1) \<Rightarrow> (\<not> ok, v1))
         else (True, v))
      else (False, v))"

text \<open>The lookup after the cache is fresh enough, with one rate-limited refetch on a miss.\<close>

definition key_find :: "jwx \<Rightarrow> string \<Rightarrow> gotime \<Rightarrow> Verifier \<Rightarrow> (tenant_error + jwk) \<times> Verifier" where
  "key_find X kid now v =
     (case lookup X (v_set v) kid of
        Some k \<Rightarrow> (Inr k, v)
      | None \<Rightarrow>
          if time_Sub now (v_lastRefetch v) \<ge> jwksMinRefetch then
            (case refetchLocked X now v of
               (False, v1) \<Rightarrow> (Inl ErrUnknownKID, v1)
             | (True, v1) \<Rightarrow> (case lookup X (v_set v1) kid of
                 Some k \<Rightarrow> (Inr k, v1)
               | None \<Rightarrow> (Inl ErrUnknownKID, v1)))
          else (Inl ErrUnknownKID, v))"

definition key :: "jwx \<Rightarrow> string \<Rightarrow> gotime \<Rightarrow> Verifier \<Rightarrow> (tenant_error + jwk) \<times> Verifier" where
  "key X kid now v =
     (if kid = [] then (Inl ErrUnknownKID, v)
      else case key_refresh X now v of (failed, v1) \<Rightarrow>
        if failed \<and> (v_set v1 = None \<or> time_Sub now (v_fetchedAt v1) > jwksTTL + jwksStaleGrace)
        then (Inl ErrUnknownKID, v1\<lparr>v_set := None\<rparr>)
        else key_find X kid now v1)"

text \<open>\<open>safeGet\<close> turns a panic of the library into an error; the error itself is not inspected.\<close>

fun safeGet :: "'a get_result \<Rightarrow> 'a option" where
  "safeGet (Got x) = Some x"
| "safeGet GetError = None"
| "safeGet GetPanic = None"

definition hasScope :: "string \<Rightarrow> string \<Rightarrow> bool" where
  "hasScope scope want \<longleftrightarrow> list_ex (\<lambda>s. s = want) (Fields scope)"

text \<open>The trust tier: present, a number, and exactly 0 or 1.\<close>

definition trust_tier :: "jwx \<Rightarrow> jwt_token \<Rightarrow> uint8 option" where
  "trust_tier X tok =
     (if \<not> tk_Has tok ''trust_tier'' then None
      else case safeGet (tk_GetAny tok ''trust_tier'') of
        None \<Rightarrow> None
      | Some ANil \<Rightarrow> None
      | Some AOther \<Rightarrow> None
      | Some (AFloat f) \<Rightarrow>
          (let tier = int_of_float (float_to_int_oor X) f
           in if float_ne_int tier f \<or> (tier \<noteq> 0 \<and> tier \<noteq> 1) then None
              else Some (word_of_int tier)))"

definition claim_string :: "jwt_token \<Rightarrow> string \<Rightarrow> string" where
  "claim_string tok name = (case safeGet (tk_GetString tok name) of None \<Rightarrow> [] | Some s \<Rightarrow> s)"

text \<open>The checks of \<open>Verify\<close> on a token whose signature held.\<close>

definition check_claims :: "jwx \<Rightarrow> Verifier \<Rightarrow> jwt_token \<Rightarrow> gotime \<Rightarrow> tenant_error + Claims" where
  "check_claims X v tok now =
     (if tk_Issuer tok \<noteq> Some (v_issuer v) then Inl ErrBadIssuer
      else if (case tk_Audience tok of None \<Rightarrow> [] | Some a \<Rightarrow> a) \<noteq> [v_audience v] then Inl ErrBadAudience
      else if (case tk_Expiration tok of None \<Rightarrow> True | Some ex \<Rightarrow> now > ex + clockSkew) then Inl ErrExpired
      else if (case tk_NotBefore tok of None \<Rightarrow> False | Some nb \<Rightarrow> now + clockSkew < nb) then Inl ErrExpired
      else
        let scope = claim_string tok ''scope''
        in if \<not> hasScope scope ScopeWriteEvents then Inl ErrBadScope
           else if claim_string tok ''tenant_id'' = [] then Inl ErrMalformed
           else if claim_string tok ''install_id'' = [] then Inl ErrMalformed
           else case trust_tier X tok of
             None \<Rightarrow> Inl ErrMalformed
           | Some tier \<Rightarrow> Inr \<lparr>c_TenantID = claim_string tok ''tenant_id'',
               c_InstallID = claim_string tok ''install_id'', c_Scope = scope, c_TrustTier = tier\<rparr>)"

definition Verify :: "jwx \<Rightarrow> string \<Rightarrow> gotime \<Rightarrow> Verifier \<Rightarrow> (tenant_error + Claims) \<times> Verifier" where
  "Verify X bearer now v =
     (let raw = stripBearer bearer in
      case jws_Parse X raw of
        Some [hdr] \<Rightarrow>
          if jh_Algorithm hdr \<noteq> Some ''EdDSA'' then (Inl ErrBadAlg, v)
          else if jh_typ hdr \<noteq> Some TokenType then (Inl ErrBadType, v)
          else (case key X (case jh_KeyID hdr of None \<Rightarrow> [] | Some k \<Rightarrow> k) now v of
              (Inl err, v') \<Rightarrow> (Inl err, v')
            | (Inr k, v') \<Rightarrow> (case jwt_Parse X raw k of
                  None \<Rightarrow> (Inl ErrMalformed, v')
                | Some tok \<Rightarrow> (check_claims X v' tok now, v')))
      | _ \<Rightarrow> (Inl ErrMalformed, v))"

section \<open>The JWKS cache\<close>

text \<open>Any interleaving of requests is a sequence of \<open>key\<close> calls, one mutex section each.\<close>

inductive v_reach :: "jwx \<Rightarrow> Verifier \<Rightarrow> bool" for X where
  fresh: "v_reach X (NewVerifier url issuer audience)"
| call: "v_reach X v \<Longrightarrow> v_reach X (snd (key X kid now v))"

definition cache_inv :: "jwx \<Rightarrow> Verifier \<Rightarrow> bool" where
  "cache_inv X v \<longleftrightarrow>
     successively (\<lambda>s t. jwksMinRefetch \<le> t - s) (v_log v)
   \<and> (v_log v \<noteq> [] \<longrightarrow> last (v_log v) = v_lastRefetch v)
   \<and> (\<forall>s. v_set v = Some s \<longrightarrow>
        v_fetchedAt v \<in> set (v_log v) \<and> jwk_Fetch X (v_url v) (v_fetchedAt v) = Some s)"

lemma refetch_frame [simp]:
  "v_url (snd (refetchLocked X now v)) = v_url v"
  "v_issuer (snd (refetchLocked X now v)) = v_issuer v"
  "v_audience (snd (refetchLocked X now v)) = v_audience v"
  "v_lastRefetch (snd (refetchLocked X now v)) = now"
  "v_log (snd (refetchLocked X now v)) = v_log v @ [now]"
  by (simp_all add: refetchLocked_def Let_def split: option.splits)

lemma refetch_failed:
  "\<not> fst (refetchLocked X now v) \<Longrightarrow>
     v_set (snd (refetchLocked X now v)) = v_set v \<and>
     v_fetchedAt (snd (refetchLocked X now v)) = v_fetchedAt v"
  by (simp add: refetchLocked_def Let_def split: option.splits)

lemma refetch_ok:
  "fst (refetchLocked X now v) \<Longrightarrow>
     v_set (snd (refetchLocked X now v)) = jwk_Fetch X (v_url v) now \<and>
     v_set (snd (refetchLocked X now v)) \<noteq> None \<and>
     v_fetchedAt (snd (refetchLocked X now v)) = now"
  by (auto simp: refetchLocked_def Let_def split: option.splits)

lemma gap_iff: "jwksMinRefetch \<le> time_Sub now t \<longleftrightarrow> jwksMinRefetch \<le> now - t"
  by (simp add: jwks_consts time_Sub_ge)

lemma refetch_inv:
  assumes "cache_inv X v" "jwksMinRefetch \<le> time_Sub now (v_lastRefetch v)"
  shows "cache_inv X (snd (refetchLocked X now v))"
proof (cases "fst (refetchLocked X now v)")
  case True
  with assms refetch_ok [OF True] show ?thesis
    by (auto simp: cache_inv_def successively_append_iff gap_iff)
next
  case False
  with assms refetch_failed [OF False] show ?thesis
    by (auto simp: cache_inv_def successively_append_iff gap_iff)
qed

lemma key_refresh_inv: "cache_inv X v \<Longrightarrow> cache_inv X (snd (key_refresh X now v))"
  by (auto simp: key_refresh_def refetch_inv split: prod.splits)
    (metis refetch_inv snd_conv)

lemma key_find_cases:
  obtains (hit) k where "lookup X (v_set v) kid = Some k" "key_find X kid now v = (Inr k, v)"
  | (limited) "lookup X (v_set v) kid = None" "\<not> jwksMinRefetch \<le> time_Sub now (v_lastRefetch v)"
      "key_find X kid now v = (Inl ErrUnknownKID, v)"
  | (refetched) r where "jwksMinRefetch \<le> time_Sub now (v_lastRefetch v)"
      "key_find X kid now v = (r, snd (refetchLocked X now v))"
      "\<And>k. r = Inr k \<Longrightarrow> fst (refetchLocked X now v) \<and>
         lookup X (v_set (snd (refetchLocked X now v))) kid = Some k"
proof (cases "lookup X (v_set v) kid")
  case (Some k)
  then show thesis using hit by (simp add: key_find_def)
next
  case None
  show thesis
  proof (cases "jwksMinRefetch \<le> time_Sub now (v_lastRefetch v)")
    case False
    with None show thesis using limited by (simp add: key_find_def)
  next
    case True
    obtain ok v1 where rf: "refetchLocked X now v = (ok, v1)" by (cases "refetchLocked X now v")
    show thesis
      by (rule refetched [OF True, of "fst (key_find X kid now v)"])
        (auto simp: key_find_def None True rf split: bool.splits option.splits)
  qed
qed

lemma key_find_inv: "cache_inv X v \<Longrightarrow> cache_inv X (snd (key_find X kid now v))"
  by (cases rule: key_find_cases [of X v kid now]) (auto simp: refetch_inv)

lemma cache_inv_drop: "cache_inv X v \<Longrightarrow> cache_inv X (v\<lparr>v_set := None\<rparr>)"
  by (simp add: cache_inv_def)

lemma key_inv: "cache_inv X v \<Longrightarrow> cache_inv X (snd (key X kid now v))"
  using key_refresh_inv [of X v now]
  by (auto simp: key_def key_find_inv cache_inv_drop split: prod.splits)

lemma reach_cache_inv: "v_reach X v \<Longrightarrow> cache_inv X v"
proof (induction rule: v_reach.induct)
  case (fresh url issuer audience)
  show ?case by (simp add: cache_inv_def NewVerifier_def)
next
  case (call v kid now)
  then show ?case by (intro key_inv)
qed

lemma spaced_log:
  assumes "successively (\<lambda>s t. d \<le> t - s) ts" "i \<le> j" "j < length ts"
  shows "int (j - i) * d \<le> ts ! j - ts ! i"
  using assms(2,3)
proof (induction j)
  case (Suc j)
  show ?case
  proof (cases "i = Suc j")
    case False
    with Suc have "int (j - i) * d \<le> ts ! j - ts ! i" by simp
    moreover have "d \<le> ts ! Suc j - ts ! j"
      using assms(1) Suc.prems(2) by (simp add: successively_conv_nth)
    moreover have "int (Suc j - i) = int (j - i) + 1" using False Suc.prems by simp
    ultimately show ?thesis by (simp add: algebra_simps)
  qed simp
qed simp

text \<open>
  C21. Forged key ids cannot drive traffic to the JWKS endpoint: in every state any sequence of
  requests can reach, at whatever times and with whatever key ids, the \<open>i\<close>-th and the \<open>j\<close>-th
  fetch lie at least \<open>j - i\<close> times 30 seconds apart.
\<close>

theorem jwks_fetches_rate_limited:
  assumes "v_reach X v" "i \<le> j" "j < length (v_log v)"
  shows "int (j - i) * jwksMinRefetch \<le> v_log v ! j - v_log v ! i"
  using reach_cache_inv [OF assms(1)] assms(2,3)
  by (intro spaced_log) (simp_all add: cache_inv_def)

definition silent_jwx :: jwx where
  "silent_jwx = \<lparr>jws_Parse = (\<lambda>_. None), jwt_Parse = (\<lambda>_ _. None), jwk_Fetch = (\<lambda>_ _. None),
     LookupKeyID = (\<lambda>_ _. None), float_to_int_oor = (\<lambda>_. 0)\<rparr>"

text \<open>Three requests with a forged key id at 0, 29 and 30 seconds: the second one is not passed on to the endpoint.\<close>

definition forged_calls :: Verifier where
  "forged_calls = snd (key silent_jwx ''k'' (30 * Second) (snd (key silent_jwx ''k'' (29 * Second)
     (snd (key silent_jwx ''k'' 0 (NewVerifier [] [] []))))))"

theorem jwks_fetches_rate_limited_witness:
  "v_log forged_calls = [0, 30 * Second] \<and> int (1 - 0) * jwksMinRefetch \<le> v_log forged_calls ! 1 - v_log forged_calls ! 0"
proof -
  have log: "v_log forged_calls = [0, 30 * Second]"
    by (simp add: forged_calls_def silent_jwx_def key_def key_refresh_def key_stale_def refetchLocked_def NewVerifier_def
        gap_iff jwks_consts zero_time_def time_Sub_ge)
  have "v_reach silent_jwx forged_calls" unfolding forged_calls_def by (intro v_reach.intros)
  from jwks_fetches_rate_limited [OF this, of 0 1] log show ?thesis by simp
qed

section \<open>Freshness of the keys that verify\<close>

definition fresh_enough :: "gotime \<Rightarrow> Verifier \<Rightarrow> bool" where
  "fresh_enough now v \<longleftrightarrow> (v_set v \<noteq> None \<longrightarrow> now - v_fetchedAt v \<le> jwksTTL + jwksStaleGrace)"

lemma grace_iff:
  "jwksTTL + jwksStaleGrace < time_Sub now t \<longleftrightarrow> jwksTTL + jwksStaleGrace < now - t"
  "jwksTTL < time_Sub now t \<longleftrightarrow> jwksTTL < now - t"
  by (simp_all add: jwks_consts time_Sub_gt)

lemma jwks_pos: "0 \<le> jwksTTL" "0 \<le> jwksStaleGrace"
  by (simp_all add: jwks_consts)

lemma refetch_ok_fresh: "fst (refetchLocked X now v) \<Longrightarrow> fresh_enough now (snd (refetchLocked X now v))"
  using refetch_ok [of X now v] jwks_pos by (simp add: fresh_enough_def)

lemma key_refresh_fresh:
  assumes "key_refresh X now v = (failed, v1)"
    "\<not> (failed \<and> (v_set v1 = None \<or> time_Sub now (v_fetchedAt v1) > jwksTTL + jwksStaleGrace))"
  shows "fresh_enough now v1"
proof (cases "failed")
  case True
  with assms(2) show ?thesis by (simp add: fresh_enough_def grace_iff)
next
  case False
  show ?thesis
  proof (cases "key_stale now v")
    case True
    with assms(1) False have "fst (refetchLocked X now v)" "v1 = snd (refetchLocked X now v)"
      by (auto simp: key_refresh_def split: if_splits prod.splits)
    then show ?thesis using refetch_ok_fresh by simp
  next
    case False
    with assms(1) have "v1 = v" by (simp add: key_refresh_def)
    with False show ?thesis using jwks_pos
      by (auto simp: key_stale_def fresh_enough_def grace_iff)
  qed
qed

lemma key_find_Inr:
  assumes "key_find X kid now v = (Inr k, v')" "fresh_enough now v"
  shows "lookup X (v_set v') kid = Some k \<and> fresh_enough now v'"
proof (cases rule: key_find_cases [of X v kid now])
  case (refetched r)
  with assms have "v' = snd (refetchLocked X now v)" "r = Inr k" by simp_all
  with refetched(3) [of k] refetch_ok_fresh show ?thesis by simp
qed (use assms in auto)

lemma key_Inr:
  assumes "key X kid now v = (Inr k, v')"
  shows "kid \<noteq> [] \<and> lookup X (v_set v') kid = Some k \<and> fresh_enough now v'"
proof -
  obtain failed v1 where kr: "key_refresh X now v = (failed, v1)" by (cases "key_refresh X now v")
  with assms have "kid \<noteq> []" and
    nd: "\<not> (failed \<and> (v_set v1 = None \<or> time_Sub now (v_fetchedAt v1) > jwksTTL + jwksStaleGrace))"
    and kf: "key_find X kid now v1 = (Inr k, v')"
    by (auto simp: key_def split: if_splits)
  from key_find_Inr [OF kf key_refresh_fresh [OF kr nd]] \<open>kid \<noteq> []\<close> show ?thesis by simp
qed

lemma lookup_Some:
  "lookup X st kid = Some k \<longleftrightarrow> (\<exists>s. st = Some s \<and> LookupKeyID X s kid = Some k \<and>
     jk_KeyUsage k = Some ''sig'' \<and> jk_KeyType k = ''OKP'' \<and> jk_crv k = Some ''Ed25519'')"
  by (auto simp: lookup_def split: option.splits)

text \<open>
  C22. A key that verifies a token at time \<open>now\<close> was published by a fetch of the JWKS at most
  15 minutes (the cache's TTL plus its grace period) earlier, and was published for this purpose:
  \<open>use=sig\<close>, \<open>kty=OKP\<close>, \<open>crv=Ed25519\<close>. A retired key stops verifying within that bound even
  when the endpoint stays unreachable.
\<close>

theorem key_fresh_and_well_shaped:
  assumes "v_reach X v" "key X kid now v = (Inr k, v')"
  shows "\<exists>t s. t \<in> set (v_log v') \<and> now - t \<le> 15 * Minute \<and> jwk_Fetch X (v_url v') t = Some s \<and>
    LookupKeyID X s kid = Some k \<and> jk_KeyUsage k = Some ''sig'' \<and> jk_KeyType k = ''OKP'' \<and>
    jk_crv k = Some ''Ed25519''"
proof -
  have inv: "cache_inv X v'"
    using key_inv [OF reach_cache_inv [OF assms(1)], of kid now] assms(2) by simp
  from key_Inr [OF assms(2)] obtain s where s: "v_set v' = Some s" "LookupKeyID X s kid = Some k"
      "jk_KeyUsage k = Some ''sig''" "jk_KeyType k = ''OKP''" "jk_crv k = Some ''Ed25519''"
      "fresh_enough now v'"
    by (auto simp: lookup_Some)
  then have "now - v_fetchedAt v' \<le> 15 * Minute"
    by (simp add: fresh_enough_def jwks_consts)
  with s inv show ?thesis unfolding cache_inv_def by blast
qed

definition sample_key :: jwk where
  "sample_key = \<lparr>jk_KeyID = Some ''kid-1'', jk_KeyUsage = Some ''sig'', jk_KeyType = ''OKP'',
     jk_crv = Some ''Ed25519'', jk_public = ''pub''\<rparr>"

definition first_kid :: "jwk_set \<Rightarrow> string \<Rightarrow> jwk option" where
  "first_kid s kid = find (\<lambda>k. jk_KeyID k = Some kid) s"

definition sample_jwx :: jwx where
  "sample_jwx = \<lparr>jws_Parse = (\<lambda>_. None), jwt_Parse = (\<lambda>_ _. None), jwk_Fetch = (\<lambda>_ _. Some [sample_key]),
     LookupKeyID = first_kid, float_to_int_oor = (\<lambda>_. 0)\<rparr>"

lemma sample_key_found:
  assumes "jwk_Fetch X = (\<lambda>_ _. Some [sample_key])" "LookupKeyID X = first_kid"
  shows "key X ''kid-1'' 0 (NewVerifier url iss aud) =
     (Inr sample_key, (NewVerifier url iss aud)\<lparr>v_set := Some [sample_key], v_fetchedAt := 0,
        v_lastRefetch := 0, v_log := [0]\<rparr>)"
proof -
  have "jwksMinRefetch \<le> time_Sub 0 zero_time"
    unfolding gap_iff by (simp add: jwks_consts zero_time_def)
  then show ?thesis
    by (simp add: key_def key_refresh_def key_stale_def refetchLocked_def Let_def NewVerifier_def
        assms key_find_def lookup_def first_kid_def sample_key_def)
qed

theorem key_fresh_and_well_shaped_witness:
  "\<exists>t s. t \<in> {0} \<and> 0 - t \<le> 15 * Minute \<and> jwk_Fetch sample_jwx ''u'' t = Some s \<and>
    LookupKeyID sample_jwx s ''kid-1'' = Some sample_key \<and> jk_KeyUsage sample_key = Some ''sig'' \<and>
    jk_KeyType sample_key = ''OKP'' \<and> jk_crv sample_key = Some ''Ed25519''"
  using key_fresh_and_well_shaped [OF v_reach.fresh sample_key_found, of sample_jwx "''u''" "[]" "[]"]
  by (simp add: NewVerifier_def sample_jwx_def)

end
