(* ===== verification/Tenant_Profile.thy ===== *)
theory Tenant_Profile
  imports Tenant_Verify
begin

text \<open>
  What \<open>Verify\<close> of \<open>pkg/tenant/verify.go\<close> accepts: the verification profile that ADR-0007 pins, row by row, and
  that the chain of checks enforces all of its rows but two; and the round trip with the minter of
  \<open>pkg/tenant/token.go\<close>: what is minted verifies during its lifetime and not after.
\<close>

section \<open>The checks the code makes\<close>

text \<open>
  What the code requires of a token whose signature held, for a verifier for issuer \<open>iss\<close> and audience \<open>aud\<close> at
  time \<open>now\<close>, and the claims it then stands for.
\<close>

definition enforced_checks :: "string \<Rightarrow> string \<Rightarrow> gotime \<Rightarrow> jwt_token \<Rightarrow> Claims \<Rightarrow> bool" where
  "enforced_checks iss aud now tok c \<longleftrightarrow>
     tk_Issuer tok = Some iss \<and> tk_Audience tok = Some [aud]
   \<and> (\<exists>ex. tk_Expiration tok = Some ex \<and> now \<le> ex + 60 * Second)
   \<and> (\<forall>nb. tk_NotBefore tok = Some nb \<longrightarrow> nb \<le> now + 60 * Second)
   \<and> tk_GetString tok ''scope'' = Got (c_Scope c) \<and> ''write:events'' \<in> set (Fields (c_Scope c))
   \<and> tk_GetString tok ''tenant_id'' = Got (c_TenantID c) \<and> c_TenantID c \<noteq> []
   \<and> tk_GetString tok ''install_id'' = Got (c_InstallID c) \<and> c_InstallID c \<noteq> []
   \<and> tk_Has tok ''trust_tier''
   \<and> (tk_GetAny tok ''trust_tier'' = Got (AFloat (Fin 0)) \<and> c_TrustTier c = 0
      \<or> tk_GetAny tok ''trust_tier'' = Got (AFloat (Fin 1)) \<and> c_TrustTier c = 1)"

lemma trust_tier_float:
  "\<not> (float_ne_int (int_of_float oor f) f \<or> int_of_float oor f \<noteq> 0 \<and> int_of_float oor f \<noteq> 1)
     \<longleftrightarrow> f = Fin 0 \<or> f = Fin 1"
  by (cases f) (auto simp: Let_def)

lemma int_of_float_01: "int_of_float oor (Fin 0) = 0" "int_of_float oor (Fin 1) = 1"
  by simp_all

lemma trust_tier_Some:
  "trust_tier X tok = Some w \<longleftrightarrow> tk_Has tok ''trust_tier'' \<and>
     (tk_GetAny tok ''trust_tier'' = Got (AFloat (Fin 0)) \<and> w = 0
      \<or> tk_GetAny tok ''trust_tier'' = Got (AFloat (Fin 1)) \<and> w = 1)"
proof (cases "tk_GetAny tok ''trust_tier''")
  case (Got a)
  show ?thesis
  proof (cases a)
    case (AFloat f)
    with Got trust_tier_float [of "float_to_int_oor X" f] show ?thesis
      by (auto simp: trust_tier_def Let_def int_of_float_01 simp del: int_of_float.simps float_ne_int.simps)
  qed (simp_all add: trust_tier_def Got)
qed (simp_all add: trust_tier_def)

lemma claim_string_nonempty:
  "s \<noteq> [] \<Longrightarrow> claim_string tok n = s \<longleftrightarrow> tk_GetString tok n = Got s"
  by (cases "tk_GetString tok n") (auto simp: claim_string_def)

lemma Fields_Nil [simp]: "Fields [] = []"
  by (simp add: Fields_def)

lemma check_claims_Inr:
  "check_claims X v tok now = Inr c \<longleftrightarrow> enforced_checks (v_issuer v) (v_audience v) now tok c"
proof
  assume ok: "check_claims X v tok now = Inr c"
  then have "hasScope (claim_string tok ''scope'') ScopeWriteEvents"
    and fields: "claim_string tok ''tenant_id'' \<noteq> []" "claim_string tok ''install_id'' \<noteq> []"
      "trust_tier X tok = Some (c_TrustTier c)" "c_TenantID c = claim_string tok ''tenant_id''"
      "c_InstallID c = claim_string tok ''install_id''" "c_Scope c = claim_string tok ''scope''"
    by (auto simp: check_claims_def Let_def split: if_splits option.splits)
  then have scope: "''write:events'' \<in> set (Fields (c_Scope c))" "c_Scope c \<noteq> []"
    by (auto simp: hasScope_def ScopeWriteEvents_def list_ex_iff)
  have "tk_Issuer tok = Some (v_issuer v)" "tk_Audience tok = Some [v_audience v]"
    "\<exists>ex. tk_Expiration tok = Some ex \<and> now \<le> ex + 60 * Second"
    "\<forall>nb. tk_NotBefore tok = Some nb \<longrightarrow> nb \<le> now + 60 * Second"
    using ok by (auto simp: check_claims_def Let_def clockSkew_def split: if_splits option.splits)
  with fields scope show "enforced_checks (v_issuer v) (v_audience v) now tok c"
    by (simp add: enforced_checks_def trust_tier_Some claim_string_nonempty [symmetric])
next
  assume pr: "enforced_checks (v_issuer v) (v_audience v) now tok c"
  then have "trust_tier X tok = Some (c_TrustTier c)"
    by (auto simp: enforced_checks_def trust_tier_Some)
  moreover from pr have "hasScope (c_Scope c) ScopeWriteEvents"
    by (auto simp: enforced_checks_def hasScope_def ScopeWriteEvents_def list_ex_iff)
  ultimately show "check_claims X v tok now = Inr c"
    using pr by (auto simp: enforced_checks_def check_claims_def Let_def clockSkew_def claim_string_def
        split: option.splits)
qed

lemma key_frame:
  "v_issuer (snd (key X kid now v)) = v_issuer v \<and> v_audience (snd (key X kid now v)) = v_audience v \<and>
   v_url (snd (key X kid now v)) = v_url v"
proof -
  have kr: "v_issuer (snd (key_refresh X now v)) = v_issuer v \<and>
      v_audience (snd (key_refresh X now v)) = v_audience v \<and> v_url (snd (key_refresh X now v)) = v_url v"
    by (auto simp: key_refresh_def split: prod.splits) (metis refetch_frame snd_conv)+
  have "v_issuer (snd (key_find X kid now w)) = v_issuer w \<and>
      v_audience (snd (key_find X kid now w)) = v_audience w \<and> v_url (snd (key_find X kid now w)) = v_url w" for w
    by (cases rule: key_find_cases [of X w kid now]) auto
  with kr show ?thesis
    by (auto simp: key_def split: prod.splits)
qed

lemma Verify_Inr_iff:
  "Verify X bearer now v = (Inr c, v') \<longleftrightarrow>
     (\<exists>hdr k tok. jws_Parse X (stripBearer bearer) = Some [hdr]
        \<and> jh_Algorithm hdr = Some ''EdDSA'' \<and> jh_typ hdr = Some ''at+jwt''
        \<and> key X (case jh_KeyID hdr of None \<Rightarrow> [] | Some k \<Rightarrow> k) now v = (Inr k, v')
        \<and> jwt_Parse X (stripBearer bearer) k = Some tok
        \<and> enforced_checks (v_issuer v) (v_audience v) now tok c)"
proof -
  have fr: "key X kid now v = (r, w) \<Longrightarrow> v_issuer w = v_issuer v \<and> v_audience w = v_audience v" for kid r w
    using key_frame [of X kid now v] by simp
  show ?thesis
  proof (cases "\<exists>hdr. jws_Parse X (stripBearer bearer) = Some [hdr] \<and>
      jh_Algorithm hdr = Some ''EdDSA'' \<and> jh_typ hdr = Some ''at+jwt''")
    case False
    then have "\<nexists>c. fst (Verify X bearer now v) = Inr c"
      by (auto simp: Verify_def Let_def TokenType_def split: option.splits list.splits)
    with False show ?thesis by (metis fst_conv)
  next
    case True
    then obtain hdr where hdr: "jws_Parse X (stripBearer bearer) = Some [hdr]"
      "jh_Algorithm hdr = Some ''EdDSA''" "jh_typ hdr = Some ''at+jwt''" by blast
    let ?kid = "case jh_KeyID hdr of None \<Rightarrow> [] | Some k \<Rightarrow> k"
    obtain r w where key: "key X ?kid now v = (r, w)" by (cases "key X ?kid now v")
    show ?thesis
    proof (cases r)
      case (Inl err)
      with hdr key show ?thesis by (simp add: Verify_def Let_def TokenType_def)
    next
      case (Inr k)
      with hdr key fr [OF key] show ?thesis
        by (cases "jwt_Parse X (stripBearer bearer) k")
          (auto simp: Verify_def Let_def TokenType_def check_claims_Inr)
    qed
  qed
qed

section \<open>The profile of ADR-0007\<close>

text \<open>
  The table "Verification profile" of ADR-0007 (\<open>docs/decisions\<close>), each field with its policy; where a field has two
  policies they are two rows. The lifetime is counted from \<open>nbf\<close>, which the minter sets to the time of issue.
\<close>

datatype adr_row = RowAlg | RowTyp | RowIss | RowAud | RowExp | RowLifetime | RowNbfPresent | RowNbf | RowScope | RowTenant
  | RowInstall | RowTier | RowKid | RowKeyShape

definition got :: "'a get_result \<Rightarrow> ('a \<Rightarrow> bool) \<Rightarrow> bool" where
  "got x P = (case x of Got a \<Rightarrow> P a | _ \<Rightarrow> False)"

definition adr_0007 :: "string \<Rightarrow> string \<Rightarrow> gotime \<Rightarrow> jws_header \<Rightarrow> jwk \<Rightarrow> jwt_token \<Rightarrow> (adr_row \<times> bool) list" where
  "adr_0007 iss aud now hdr k tok =
     [(RowAlg, jh_Algorithm hdr = Some ''EdDSA''), (RowTyp, jh_typ hdr = Some ''at+jwt''),
      (RowIss, tk_Issuer tok = Some iss), (RowAud, tk_Audience tok = Some [aud]),
      (RowExp, case tk_Expiration tok of None \<Rightarrow> False | Some ex \<Rightarrow> now \<le> ex + 60 * Second),
      (RowLifetime, case (tk_NotBefore tok, tk_Expiration tok) of
         (Some nb, Some ex) \<Rightarrow> 30 * Minute \<le> ex - nb \<and> ex - nb \<le> 60 * Minute | _ \<Rightarrow> False),
      (RowNbfPresent, tk_NotBefore tok \<noteq> None),
      (RowNbf, case tk_NotBefore tok of None \<Rightarrow> True | Some nb \<Rightarrow> nb \<le> now + 60 * Second),
      (RowScope, got (tk_GetString tok ''scope'') (\<lambda>s. ''write:events'' \<in> set (Fields s))),
      (RowTenant, got (tk_GetString tok ''tenant_id'') (\<lambda>s. s \<noteq> [])),
      (RowInstall, got (tk_GetString tok ''install_id'') (\<lambda>s. s \<noteq> [])),
      (RowTier, tk_Has tok ''trust_tier'' \<and> got (tk_GetAny tok ''trust_tier'') (\<lambda>a. a = AFloat (Fin 0) \<or> a = AFloat (Fin 1))),
      (RowKid, case jh_KeyID hdr of None \<Rightarrow> False | Some kid \<Rightarrow> kid \<noteq> []),
      (RowKeyShape, jk_KeyUsage k = Some ''sig'' \<and> jk_KeyType k = ''OKP'' \<and> jk_crv k = Some ''Ed25519'')]"

definition violated :: "(adr_row \<times> bool) list \<Rightarrow> adr_row list" where
  "violated rows = map fst (filter (\<lambda>(_, ok). \<not> ok) rows)"

text \<open>The claims a token carries.\<close>

definition carries :: "jwt_token \<Rightarrow> Claims \<Rightarrow> bool" where
  "carries tok c \<longleftrightarrow> tk_GetString tok ''scope'' = Got (c_Scope c) \<and> tk_GetString tok ''tenant_id'' = Got (c_TenantID c) \<and>
     tk_GetString tok ''install_id'' = Got (c_InstallID c) \<and>
     tk_GetAny tok ''trust_tier'' = Got (AFloat (Fin (of_int (uint (c_TrustTier c)))))"

lemma violated_within: "set (violated rows) \<subseteq> A \<longleftrightarrow> list_all (\<lambda>(row, ok). row \<in> A \<or> ok) rows"
  by (auto simp: violated_def list_all_iff)

lemma carries_tier:
  fixes w :: uint8
  shows "rat_of_int (uint w) = 0 \<longleftrightarrow> w = 0" "rat_of_int (uint w) = 1 \<longleftrightarrow> w = 1"
  by (simp_all only: of_int_eq_0_iff of_int_eq_1_iff word_uint_eq_iff unsigned_0 unsigned_1)

lemma enforced_iff_rows:
  assumes "jh_Algorithm hdr = Some ''EdDSA''" "jh_typ hdr = Some ''at+jwt''"
    and "key X (case jh_KeyID hdr of None \<Rightarrow> [] | Some k \<Rightarrow> k) now v = (Inr k, v')"
  shows "enforced_checks iss aud now tok c \<longleftrightarrow>
    set (violated (adr_0007 iss aud now hdr k tok)) \<subseteq> {RowNbfPresent, RowLifetime} \<and> carries tok c"
proof -
  have "case jh_KeyID hdr of None \<Rightarrow> False | Some kid \<Rightarrow> kid \<noteq> []"
    "jk_KeyUsage k = Some ''sig'' \<and> jk_KeyType k = ''OKP'' \<and> jk_crv k = Some ''Ed25519''"
    using key_Inr [OF assms(3)] by (auto simp: lookup_Some split: option.splits)
  then show ?thesis
    using assms(1,2) carries_tier [of "c_TrustTier c"]
    by (auto simp: violated_within adr_0007_def enforced_checks_def carries_def got_def split: option.splits get_result.splits)
qed

text \<open>
  C7. The verification profile of ADR-0007 and the code: a bearer is accepted exactly when it parses to one signature,
  its key id resolves, the signature holds under that key, and no row of the profile is violated other than two: the
  code never requires \<open>nbf\<close> to be present and never bounds the lifetime to 30 to 60 minutes. Every token that
  conforms to the profile is accepted, every token that violates another row is refused, and the claims
  returned are the token's own.
\<close>

theorem Verify_enforces_all_but_two_rows:
  "Verify X bearer now v = (Inr c, v') \<longleftrightarrow>
     (\<exists>hdr k tok. jws_Parse X (stripBearer bearer) = Some [hdr]
        \<and> key X (case jh_KeyID hdr of None \<Rightarrow> [] | Some k \<Rightarrow> k) now v = (Inr k, v')
        \<and> jwt_Parse X (stripBearer bearer) k = Some tok
        \<and> set (violated (adr_0007 (v_issuer v) (v_audience v) now hdr k tok)) \<subseteq> {RowNbfPresent, RowLifetime}
        \<and> carries tok c)"
proof -
  have head: "jh_Algorithm hdr = Some ''EdDSA''" "jh_typ hdr = Some ''at+jwt''"
    if "set (violated (adr_0007 iss aud now hdr k tok)) \<subseteq> {RowNbfPresent, RowLifetime}" for iss aud hdr k tok
    using that by (simp_all add: violated_within adr_0007_def)
  show ?thesis
    unfolding Verify_Inr_iff
    by (intro iffI; elim exE conjE) (blast dest: enforced_iff_rows, metis head enforced_iff_rows)
qed

text \<open>A token that is accepted is accepted without its \<open>nbf\<close> claim, too, and with any later expiry.\<close>

lemma nbf_and_lifetime_not_required:
  assumes "check_claims X v tok now = Inr c" "tk_Expiration tok = Some ex" "ex \<le> ex'"
  shows "check_claims X v (tok\<lparr>tk_NotBefore := None, tk_Expiration := Some ex'\<rparr>) now = Inr c"
  using assms by (simp add: check_claims_Inr enforced_checks_def)

lemma Fields_write_events: "Fields ''write:events'' = [''write:events'']"
  by (rule Fields_word) (simp_all add: plain_char_def ascii_space_def)

section \<open>Minted tokens verify\<close>

text \<open>
  What the service relies on of the JWT library and of Ed25519: a token signed for header \<open>h\<close>
  with private key \<open>sk\<close> is a compact serialisation (no white space), parses to one signature with
  that header, and decodes under the matching public key \<open>k\<close> to the claims that were built,
  with times in whole seconds (\<open>NumericDate\<close>) and numbers as \<open>float64\<close>.
\<close>

definition decoded :: "jwt_build \<Rightarrow> jwt_token" where
  "decoded b = \<lparr>tk_Issuer = Some (jb_iss b), tk_Audience = Some (jb_aud b),
     tk_Expiration = Some (jb_exp b div Second * Second),
     tk_NotBefore = Some (jb_nbf b div Second * Second),
     tk_Has = (\<lambda>n. map_of (jb_claims b) n \<noteq> None),
     tk_GetString = (\<lambda>n. case map_of (jb_claims b) n of Some (CString s) \<Rightarrow> Got s | _ \<Rightarrow> GetError),
     tk_GetAny = (\<lambda>n. case map_of (jb_claims b) n of
        None \<Rightarrow> GetError | Some (CString s) \<Rightarrow> Got AOther | Some (CInt i) \<Rightarrow> Got (AFloat (Fin (of_int i))))\<rparr>"

definition compact_text :: "string \<Rightarrow> bool" where
  "compact_text s \<longleftrightarrow> s \<noteq> [] \<and> list_all plain_char s"

definition signs_for :: "jwx_signer \<Rightarrow> jwx \<Rightarrow> string \<Rightarrow> jwk \<Rightarrow> bool" where
  "signs_for J X sk k \<longleftrightarrow> (\<forall>h b s. jx_Sign J h sk b = Some s \<longrightarrow>
     compact_text s
   \<and> jws_Parse X s = Some [\<lparr>jh_Algorithm = Some (sh_alg h), jh_typ = Some (sh_typ h),
       jh_KeyID = Some (sh_kid h)\<rparr>]
   \<and> jwt_Parse X s k = Some (decoded b))"

lemma stripBearer_compact:
  assumes "compact_text s"
  shows "stripBearer (''Bearer '' @ s) = s"
proof -
  have "TrimSpace s = s"
    using assms by (intro TrimSpace_plain) (simp_all add: compact_text_def list_all_iff)
  then show ?thesis
    using Cut_append [of "CHR '' ''" "''Bearer''" s] by (simp add: stripBearer_def EqualFold_def)
qed

lemma claims_of_minted:
  "enforced_checks iss aud now (decoded (token_of m c t)) c' \<longleftrightarrow>
     m_issuer m = iss \<and> m_audience m = aud \<and> now \<le> (t + m_ttl m) div Second * Second + 60 * Second
   \<and> t div Second * Second \<le> now + 60 * Second \<and> c' = c \<and> ''write:events'' \<in> set (Fields (c_Scope c))
   \<and> c_TenantID c \<noteq> [] \<and> c_InstallID c \<noteq> [] \<and> (c_TrustTier c = 0 \<or> c_TrustTier c = 1)"
proof -
  have "(unsigned (c_TrustTier c) :: rat) = rat_of_int (uint (c_TrustTier c))"
    by simp
  then have tier: "unsigned (c_TrustTier c) = (0 :: rat) \<longleftrightarrow> c_TrustTier c = 0"
    "unsigned (c_TrustTier c) = (1 :: rat) \<longleftrightarrow> c_TrustTier c = 1"
    by (simp_all only: of_int_eq_0_iff of_int_eq_1_iff word_uint_eq_iff unsigned_0 unsigned_1)
  have "c_Scope c = c_Scope c' \<and> c_TenantID c = c_TenantID c' \<and> c_InstallID c = c_InstallID c' \<and>
      c_TrustTier c = c_TrustTier c' \<longleftrightarrow> c' = c"
    by (metis Claims.equality unit.exhaust)
  then show ?thesis
    by (auto simp: enforced_checks_def decoded_def token_of_def tier)
qed

lemma minted_parses:
  assumes "Mint J m c t = Inr (s, n)" "signs_for J X (m_key m) k"
  shows "compact_text s"
    and "jws_Parse X s = Some [\<lparr>jh_Algorithm = Some ''EdDSA'', jh_typ = Some ''at+jwt'', jh_KeyID = Some (m_kid m)\<rparr>]"
    and "jwt_Parse X s k = Some (decoded (token_of m c t))"
  using Mint_Inr(1) [OF assms(1)] assms(2)
  unfolding signs_for_def by (auto simp: headers_of_def TokenType_def)

lemma div_second_bounds: "t - Second < t div Second * Second \<and> t div Second * Second \<le> (t :: int)"
  by (simp add: minus_mod_eq_div_mult [symmetric])

lemma minted_verifies:
  assumes "Mint J m c t = Inr (s, n)" "signs_for J X (m_key m) k"
    and "v_issuer v = m_issuer m" "v_audience v = m_audience m" "key X (m_kid m) now v = (Inr k, v')"
    and "t - 60 * Second \<le> now" "now \<le> t + m_ttl m + 59 * Second"
    and "c_Scope c = ScopeWriteEvents" "c_TenantID c \<noteq> []" "c_InstallID c \<noteq> []"
    and "c_TrustTier c = 0 \<or> c_TrustTier c = 1"
  shows "Verify X (''Bearer '' @ s) now v = (Inr c, v')"
proof -
  note s = minted_parses [OF assms(1,2)]
  have "enforced_checks (v_issuer v) (v_audience v) now (decoded (token_of m c t)) c"
    using assms(3,4,6-11) div_second_bounds [of t] div_second_bounds [of "t + m_ttl m"]
    by (simp add: claims_of_minted ScopeWriteEvents_def Fields_write_events)
  with s assms(5) show ?thesis
    unfolding Verify_Inr_iff stripBearer_compact [OF s(1)] by simp
qed

text \<open>
  C26. A token the service minted is accepted, with the claims it was minted for, by every
  verifier for the same issuer and audience that resolves its key id to the matching public key,
  from 60 seconds before it was minted until 59 seconds past its lifetime.
\<close>

theorem minted_token_verifies:
  assumes "Mint J m c t = Inr (s, n)" "signs_for J X (m_key m) k"
    and "v_issuer v = m_issuer m" "v_audience v = m_audience m" "key X (m_kid m) now v = (Inr k, v')"
    and "t - 60 * Second \<le> now" "now \<le> t + m_ttl m + 59 * Second"
    and "c_Scope c = ScopeWriteEvents" "c_TenantID c \<noteq> []" "c_InstallID c \<noteq> []"
    and "c_TrustTier c = 0 \<or> c_TrustTier c = 1"
  shows "Verify X (''Bearer '' @ s) now v = (Inr c, v')"
  using assms by (rule minted_verifies)

definition sample_minter :: Minter where
  "sample_minter = \<lparr>m_kid = ''kid-1'', m_key = ''priv'', m_issuer = ''iss'', m_audience = ''aud'',
     m_ttl = 45 * Minute\<rparr>"

definition sample_claims :: Claims where
  "sample_claims = \<lparr>c_TenantID = ''t1'', c_InstallID = ''ins_1'', c_Scope = ''write:events'', c_TrustTier = 1\<rparr>"

text \<open>A library that signs and reads back the one token of the example.\<close>

definition sample_signer :: jwx_signer where
  "sample_signer = \<lparr>jx_Build = (\<lambda>_. True), jx_HdrSet = (\<lambda>_ _. True), jx_Import = Some,
     jx_Sign = (\<lambda>h k b. if h = headers_of sample_minter \<and> b = token_of sample_minter sample_claims 0
        then Some ''tok'' else None)\<rparr>"

definition sample_reader :: jwx where
  "sample_reader = \<lparr>jws_Parse = (\<lambda>_. Some [\<lparr>jh_Algorithm = Some ''EdDSA'', jh_typ = Some ''at+jwt'',
       jh_KeyID = Some ''kid-1''\<rparr>]),
     jwt_Parse = (\<lambda>_ _. Some (decoded (token_of sample_minter sample_claims 0))),
     jwk_Fetch = (\<lambda>_ _. Some [sample_key]), LookupKeyID = first_kid, float_to_int_oor = (\<lambda>_. 0)\<rparr>"

lemma sample_signs: "signs_for sample_signer sample_reader (m_key sample_minter) sample_key"
  by (simp add: signs_for_def sample_signer_def sample_reader_def headers_of_def TokenType_def
      sample_minter_def compact_text_def plain_char_def ascii_space_def)

lemma sample_minted: "Mint sample_signer sample_minter sample_claims 0 = Inr (''tok'', 2700)"
  by (simp add: Mint_def Let_def sample_signer_def sample_minter_def whole_seconds_def)

theorem minted_token_verifies_witness:
  "fst (Verify sample_reader ''Bearer tok'' 0 (NewVerifier ''u'' ''iss'' ''aud'')) = Inr sample_claims"
proof -
  have "Verify sample_reader (''Bearer '' @ ''tok'') 0 (NewVerifier ''u'' ''iss'' ''aud'') =
      (Inr sample_claims, (NewVerifier ''u'' ''iss'' ''aud'')\<lparr>v_set := Some [sample_key], v_fetchedAt := 0,
        v_lastRefetch := 0, v_log := [0]\<rparr>)"
  proof (rule minted_token_verifies [OF sample_minted sample_signs])
    show "key sample_reader (m_kid sample_minter) 0 (NewVerifier ''u'' ''iss'' ''aud'') =
      (Inr sample_key, (NewVerifier ''u'' ''iss'' ''aud'')\<lparr>v_set := Some [sample_key], v_fetchedAt := 0,
        v_lastRefetch := 0, v_log := [0]\<rparr>)"
      using sample_key_found [of sample_reader] by (simp add: sample_reader_def sample_minter_def)
  qed (simp_all add: NewVerifier_def sample_minter_def sample_claims_def ScopeWriteEvents_def)
  then show ?thesis by simp
qed

text \<open>
  A minted token is worth nothing once its lifetime and the 60 seconds of skew are over: it
  is refused as expired, whatever its other claims.
\<close>

lemma minted_token_expires:
  assumes "Mint J m c t = Inr (s, n)" "signs_for J X (m_key m) k"
    and "v_issuer v = m_issuer m" "v_audience v = m_audience m" "key X (m_kid m) now v = (Inr k, v')"
    and "t + m_ttl m + 60 * Second < now"
  shows "Verify X (''Bearer '' @ s) now v = (Inl ErrExpired, v')"
proof -
  note s = minted_parses [OF assms(1,2)]
  have "v_issuer v' = m_issuer m" "v_audience v' = m_audience m"
    using key_frame [of X "m_kid m" now v] assms(3-5) by simp_all
  then have "check_claims X v' (decoded (token_of m c t)) now = Inl ErrExpired"
    using assms(6) div_second_bounds [of "t + m_ttl m"]
    by (simp add: check_claims_def decoded_def token_of_def clockSkew_def)
  with s assms(5) show ?thesis
    unfolding Verify_def Let_def stripBearer_compact [OF s(1)] by (simp add: TokenType_def)
qed

end
