(* ===== verification/Go_Sha256.thy ===== *)
theory Go_Sha256
  imports Go_Prelude
begin

unbundle bit_operations_syntax

text \<open>
  \<open>crypto/sha256.Sum256\<close> of Go's standard library, as FIPS 180-4 defines it: the digest the
  service takes of legacy write keys and of the Tier 1 device anchor. Every definition computes,
  on words of 32 bits and lists of bytes.
\<close>

type_synonym u32 = "32 word"

definition ror32 :: "nat \<Rightarrow> u32 \<Rightarrow> u32" where
  "ror32 n w = drop_bit n w OR push_bit (32 - n) w"

definition ssig0 :: "u32 \<Rightarrow> u32" where "ssig0 x = ror32 7 x XOR ror32 18 x XOR drop_bit 3 x"
definition ssig1 :: "u32 \<Rightarrow> u32" where "ssig1 x = ror32 17 x XOR ror32 19 x XOR drop_bit 10 x"
definition bsig0 :: "u32 \<Rightarrow> u32" where "bsig0 x = ror32 2 x XOR ror32 13 x XOR ror32 22 x"
definition bsig1 :: "u32 \<Rightarrow> u32" where "bsig1 x = ror32 6 x XOR ror32 11 x XOR ror32 25 x"
definition sha_ch :: "u32 \<Rightarrow> u32 \<Rightarrow> u32 \<Rightarrow> u32" where "sha_ch x y z = (x AND y) XOR (NOT x AND z)"
definition sha_maj :: "u32 \<Rightarrow> u32 \<Rightarrow> u32 \<Rightarrow> u32" where
  "sha_maj x y z = (x AND y) XOR (x AND z) XOR (y AND z)"

text \<open>
  The constants of the standard, from their definition: the first 32 bits of the fractional parts of the
  cube roots of the first 64 primes, and of the square roots of the first eight. \<open>root_bits d k 0 n\<close> is
  the integer part of the \<open>d\<close>-th root of \<open>n\<close>, found bit by bit from bit \<open>k - 1\<close> down.
\<close>

fun root_bits :: "nat \<Rightarrow> nat \<Rightarrow> int \<Rightarrow> int \<Rightarrow> int" where
  "root_bits d 0 acc n = acc"
| "root_bits d (Suc k) acc n = root_bits d k (if (acc + 2 ^ k) ^ d \<le> n then acc + 2 ^ k else acc) n"

definition sha_primes :: "int list" where
  "sha_primes = [2, 3, 5, 7, 11, 13, 17, 19, 23, 29, 31, 37, 41, 43, 47, 53, 59, 61, 67, 71, 73, 79, 83, 89, 97, 101, 103,
     107, 109, 113, 127, 131, 137, 139, 149, 151, 157, 163, 167, 173, 179, 181, 191, 193, 197, 199, 211, 223, 227, 229,
     233, 239, 241, 251, 257, 263, 269, 271, 277, 281, 283, 293, 307, 311]"

definition sha_K :: "u32 list" where
  "sha_K = map (\<lambda>p. word_of_int (root_bits 3 35 0 (p * 2 ^ 96))) sha_primes"

definition sha_H0 :: "u32 list" where
  "sha_H0 = map (\<lambda>p. word_of_int (root_bits 2 35 0 (p * 2 ^ 64))) (take 8 sha_primes)"

lemma root_bits_root:
  assumes "0 \<le> acc" "acc ^ d \<le> n" "n < (acc + 2 ^ k) ^ d"
  shows "root_bits d k acc n ^ d \<le> n \<and> n < (root_bits d k acc n + 1) ^ d"
  using assms
proof (induction k arbitrary: acc)
  case (Suc k)
  have "acc + 2 ^ k + 2 ^ k = acc + 2 ^ Suc k" by simp
  with Suc.prems Suc.IH [of "acc + 2 ^ k"] Suc.IH [of acc] show ?case
    by (cases "(acc + 2 ^ k) ^ d \<le> n") (simp_all add: not_le add.assoc)
qed simp

definition be32 :: "char list \<Rightarrow> u32" where
  "be32 bs = foldl (\<lambda>a b. push_bit 8 a OR of_char b) 0 bs"

fun be32s :: "nat \<Rightarrow> string \<Rightarrow> u32 list" where
  "be32s 0 s = []"
| "be32s (Suc n) s = be32 (take 4 s) # be32s n (drop 4 s)"

text \<open>The message schedule, newest word first.\<close>

fun sha_extend :: "nat \<Rightarrow> u32 list \<Rightarrow> u32 list" where
  "sha_extend 0 ws = rev ws"
| "sha_extend (Suc n) ws = sha_extend n ((ssig1 (ws ! 1) + ws ! 6 + ssig0 (ws ! 14) + ws ! 15) # ws)"

fun sha_round :: "u32 list \<Rightarrow> u32 \<times> u32 \<Rightarrow> u32 list" where
  "sha_round [a, b, c, d, e, f, g, h] (k, w) =
     (let t1 = h + bsig1 e + sha_ch e f g + k + w; t2 = bsig0 a + sha_maj a b c
      in [t1 + t2, a, b, c, d + t1, e, f, g])"
| "sha_round s _ = s"

definition sha_block :: "u32 list \<Rightarrow> string \<Rightarrow> u32 list" where
  "sha_block hs blk =
     map2 (+) hs (foldl sha_round hs (zip sha_K (sha_extend 48 (rev (be32s 16 blk)))))"

fun sha_blocks :: "nat \<Rightarrow> u32 list \<Rightarrow> string \<Rightarrow> u32 list" where
  "sha_blocks 0 hs s = hs"
| "sha_blocks (Suc n) hs s = sha_blocks n (sha_block hs (take 64 s)) (drop 64 s)"

definition be_bytes :: "nat \<Rightarrow> int \<Rightarrow> string" where
  "be_bytes w n = map (\<lambda>i. char_of (n div 256 ^ (w - 1 - i))) [0..<w]"

definition sha_pad :: "string \<Rightarrow> string" where
  "sha_pad s = s @ [CHR 0x80] @ replicate ((119 - length s mod 64) mod 64) (CHR 0x00)
     @ be_bytes 8 (8 * int (length s))"

definition Sum256 :: "string \<Rightarrow> string" where
  "Sum256 s = (let p = sha_pad s in
     concat (map (\<lambda>h. be_bytes 4 (uint h)) (sha_blocks (length p div 64) sha_H0 p)))"

lemma length_sha_round [simp]: "length (sha_round s x) = length s"
  by (induction s x rule: sha_round.induct) (auto simp: Let_def)

lemma length_foldl_sha_round [simp]: "length (foldl sha_round s xs) = length s"
  by (induction xs arbitrary: s) simp_all

lemma length_sha_block [simp]: "length (sha_block hs b) = length hs"
  by (simp add: sha_block_def)

lemma length_sha_blocks [simp]: "length (sha_blocks n hs s) = length hs"
  by (induction n arbitrary: hs s) simp_all

lemma length_be_bytes [simp]: "length (be_bytes w n) = w"
  by (simp add: be_bytes_def)

text \<open>A digest is 32 bytes.\<close>

lemma length_Sum256 [simp]: "length (Sum256 s) = 32"
proof -
  have "length (concat (map (\<lambda>h. be_bytes 4 (uint h)) hs)) = 4 * length hs" for hs :: "u32 list"
    by (induction hs) simp_all
  then show ?thesis by (simp add: Sum256_def Let_def sha_H0_def sha_primes_def)
qed

end
