(* ===== verification/Tenant_Legacy.thy ===== *)
theory Tenant_Legacy
  imports Tenant_Profile Go_Sha256
begin

text \<open>
  \<open>pkg/tenant/legacy.go\<close>: the cutover from long-lived write keys to tokens. The resolver is the
  interface \<open>LegacyResolver\<close>, an argument here and the control plane's query in \<open>Control_Plane\<close>.
\<close>

definition LegacyPrefix :: string where
  "LegacyPrefix = ''wk_live_''"

type_synonym LegacyMode = string

definition ModeDualAccept :: LegacyMode where "ModeDualAccept = ''dual_accept''"
definition ModeDeprecating :: LegacyMode where "ModeDeprecating = ''deprecating''"
definition ModeCutoff :: LegacyMode where "ModeCutoff = ''cutoff''"

lemmas mode_defs = ModeDualAccept_def ModeDeprecating_def ModeCutoff_def

type_synonym LegacyResolver = "string \<Rightarrow> (string \<times> LegacyMode) option"

definition legacy_install_id :: "string \<Rightarrow> string" where
  "legacy_install_id raw = ''legacy-'' @ hex_EncodeToString (take 8 (Sum256 raw))"

definition VerifyOrLegacy :: "jwx \<Rightarrow> LegacyResolver \<Rightarrow> string \<Rightarrow> gotime \<Rightarrow> Verifier \<Rightarrow>
    ((tenant_error + Claims) \<times> bool) \<times> Verifier" where
  "VerifyOrLegacy X Resolve bearer now v =
     (let raw = stripBearer bearer in
      if \<not> HasPrefix raw LegacyPrefix then
        (case Verify X bearer now v of (r, v') \<Rightarrow> ((r, False), v'))
      else case Resolve raw of
        None \<Rightarrow> ((Inl ErrLegacyResolve, True), v)
      | Some (tenantID, mode) \<Rightarrow>
          if mode = ModeDualAccept \<or> mode = ModeDeprecating then
            ((Inr \<lparr>c_TenantID = tenantID, c_InstallID = legacy_install_id raw,
                   c_Scope = ScopeWriteEvents, c_TrustTier = 1\<rparr>, True), v)
          else if mode = ModeCutoff then ((Inl ErrLegacyCutoff, True), v)
          else ((Inl ErrLegacyCutoff, True), v))"

lemma length_legacy_install_id: "length (legacy_install_id raw) = 23"
  by (simp add: legacy_install_id_def)

lemma legacy_install_id_no_colon: "CHR '':'' \<notin> set (legacy_install_id raw)"
  using hex_plain by (auto simp: legacy_install_id_def)

lemma VerifyOrLegacy_legacy:
  assumes "HasPrefix (stripBearer bearer) LegacyPrefix"
  shows "snd (VerifyOrLegacy X Resolve bearer now v) = v"
    and "snd (fst (VerifyOrLegacy X Resolve bearer now v))"
  using assms by (simp_all add: VerifyOrLegacy_def Let_def split: option.splits prod.splits)

lemma VerifyOrLegacy_Inr_legacy:
  assumes "VerifyOrLegacy X Resolve bearer now v = ((Inr c, True), v')"
  shows "v' = v \<and> (\<exists>mode. Resolve (stripBearer bearer) = Some (c_TenantID c, mode) \<and>
      (mode = ''dual_accept'' \<or> mode = ''deprecating'')) \<and>
    c_InstallID c = legacy_install_id (stripBearer bearer) \<and> c_Scope c = ''write:events'' \<and>
    c_TrustTier c = 1"
  using assms by (auto simp: VerifyOrLegacy_def Let_def ScopeWriteEvents_def mode_defs
      split: if_splits option.splits prod.splits)

lemma stripBearer_legacy_example: "stripBearer ''bearer wk_live_a'' = ''wk_live_a''"
proof -
  have "TrimSpace ''wk_live_a'' = ''wk_live_a''"
    by (rule TrimSpace_plain) (simp_all add: plain_char_def ascii_space_def)
  moreover have "EqualFold ''bearer'' ''Bearer''" by code_simp
  ultimately show ?thesis
    using Cut_append [of "CHR '' ''" "''bearer''" "''wk_live_a''"] by (simp add: stripBearer_def)
qed

end
