(* ===== verification/Control_Plane.thy ===== *)
theory Control_Plane
  imports Pkg_Limits Tenant_Legacy
begin

text \<open>
  \<open>pkg/controlplane\<close>: the queries of \<open>store.go\<close> and the signing keys of \<open>keys.go\<close> over the tables of
  \<open>sql/0001_control_plane.sql\<close>, with the constraints the migration declares (primary keys, the foreign key of
  \<open>installs\<close> and the three partial unique indexes). A statement is atomic. \<open>pg_outcome\<close> says what became
  of it: it ran, it ran and the reply was lost, or it never ran. The signing-key insert checks its
  guard against a snapshot that may be older than the table whose unique indexes it then meets.
\<close>

section \<open>Tables\<close>

record tenant_row =
  tn_tenant_id :: string
  tn_legacy_key_mode :: LegacyMode

record client_row =
  cl_client_id :: string
  cl_tenant_id :: string
  cl_revoked_at :: "gotime option"
  cl_legacy_key_hash :: "string option"

record quota_row =
  qt_tenant_id :: string
  qt_daily_events :: int
  qt_rps_tier0 :: int
  qt_rps_tier1 :: int
  qt_rps_legacy :: int

text \<open>The column \<open>device_key\<close> is nullable; the only statement that writes it always sets it, so a row has one here.\<close>

record install_row =
  in_install_id :: string
  in_tenant_id :: string
  in_platform :: string
  in_trust_tier :: uint8
  in_attest_subject :: "string option"
  in_device_key :: string

record signing_row =
  sg_kid :: string
  sg_public_key :: string
  sg_private_key :: string
  sg_active :: bool
  sg_retired_at :: "gotime option"

record control_db =
  db_tenants :: "tenant_row list"
  db_client_ids :: "client_row list"
  db_quotas :: "quota_row list"
  db_installs :: "install_row list"
  db_signing_keys :: "signing_row list"

text \<open>
  What becomes of a statement: executed and answered, executed but the answer lost, or not executed, because the server was
  not reached or refused the statement. The latter includes a parameter it does not take: a zero byte in a
  \<open>TEXT\<close> value, which a platform or client id sent as JSON can hold, is \<open>NotExecuted\<close>, never \<open>Executed\<close>.
\<close>

datatype pg_outcome = Executed | ReplyLost | NotExecuted

datatype store_error = ErrNotFound | ErrQuery | ErrInstallEntropy | ErrKeyGen | ErrNoActiveKey | ErrImport string | ErrAddKey

section \<open>store.go\<close>

definition ResolveTenant :: "pg_outcome \<Rightarrow> control_db \<Rightarrow> string \<Rightarrow> store_error + string" where
  "ResolveTenant pg db clientID =
     (if pg \<noteq> Executed then Inl ErrQuery
      else case filter (\<lambda>c. cl_client_id c = clientID \<and> cl_revoked_at c = None) (db_client_ids db) of
        [] \<Rightarrow> Inl ErrNotFound
      | c # _ \<Rightarrow> Inr (cl_tenant_id c))"

text \<open>The partial index an install is looked up by: its subject when attested, else its device key.\<close>

datatype anchor = Attested string | Device string

definition anchor_of :: "string \<Rightarrow> string \<Rightarrow> anchor" where
  "anchor_of subject deviceKey = (if subject \<noteq> [] then Attested subject else Device deviceKey)"

definition row_anchor :: "install_row \<Rightarrow> anchor" where
  "row_anchor i = (case in_attest_subject i of Some s \<Rightarrow> Attested s | None \<Rightarrow> Device (in_device_key i))"

definition find_install :: "string \<Rightarrow> anchor \<Rightarrow> install_row list \<Rightarrow> install_row option" where
  "find_install tenantID a = find (\<lambda>i. in_tenant_id i = tenantID \<and> row_anchor i = a)"

text \<open>
  \<open>INSERT INTO installs ... ON CONFLICT (<partial index>) DO UPDATE SET trust_tier ... RETURNING
  install_id\<close>: the row of the arbiter index wins; otherwise the primary key and the foreign key are
  checked and the row is added.
\<close>

definition upsert_install :: "install_row \<Rightarrow> control_db \<Rightarrow> (string \<times> control_db) option" where
  "upsert_install new db = (case find_install (in_tenant_id new) (row_anchor new) (db_installs db) of
      Some old \<Rightarrow> Some (in_install_id old, db\<lparr>db_installs := map (\<lambda>i.
         if in_tenant_id i = in_tenant_id new \<and> row_anchor i = row_anchor new
         then i\<lparr>in_trust_tier := in_trust_tier new\<rparr> else i) (db_installs db)\<rparr>)
    | None \<Rightarrow>
        if in_install_id new \<in> set (map in_install_id (db_installs db))
           \<or> in_tenant_id new \<notin> set (map tn_tenant_id (db_tenants db)) then None
        else Some (in_install_id new, db\<lparr>db_installs := db_installs db @ [new]\<rparr>))"

definition IssueInstall :: "string option \<Rightarrow> pg_outcome \<Rightarrow> string \<Rightarrow> string \<Rightarrow> string \<Rightarrow> string \<Rightarrow> uint8 \<Rightarrow>
    control_db \<Rightarrow> (store_error + string) \<times> control_db" where
  "IssueInstall rand pg tenantID platform subject deviceKey tier db = (case rand of
      None \<Rightarrow> (Inl ErrInstallEntropy, db)
    | Some newID \<Rightarrow>
        (let candidate = ''ins_'' @ hex_EncodeToString newID;
             new = \<lparr>in_install_id = candidate, in_tenant_id = tenantID, in_platform = platform,
                    in_trust_tier = tier,
                    in_attest_subject = (if subject \<noteq> [] then Some subject else None),
                    in_device_key = deviceKey\<rparr>
         in case upsert_install new db of
              None \<Rightarrow> (Inl ErrQuery, db)
            | Some (installID, db') \<Rightarrow>
                (case pg of Executed \<Rightarrow> (Inr installID, db')
                 | ReplyLost \<Rightarrow> (Inl ErrQuery, db')
                 | NotExecuted \<Rightarrow> (Inl ErrQuery, db))))"

definition LimitsFor :: "pg_outcome \<Rightarrow> control_db \<Rightarrow> string \<Rightarrow> uint8 \<Rightarrow> store_error + Quota" where
  "LimitsFor pg db tenantID tier =
     (if pg \<noteq> Executed then Inl ErrQuery
      else let (lm, rps0, rps1) =
             (case filter (\<lambda>q. qt_tenant_id q = tenantID) (db_quotas db) of
                [] \<Rightarrow> (DefaultQuota, q_RPS DefaultQuota, DefaultRPSTier1)
              | q # _ \<Rightarrow> (\<lparr>q_DailyEvents = qt_daily_events q, q_RPS = 0, q_LegacyRPS = qt_rps_legacy q\<rparr>,
                         qt_rps_tier0 q, qt_rps_tier1 q))
           in Inr (lm\<lparr>q_RPS := (if tier = 1 then rps1 else rps0)\<rparr>))"

text \<open>\<open>client_ids c JOIN tenants t USING (tenant_id)\<close>, the rows that match the digest.\<close>

definition legacy_rows :: "control_db \<Rightarrow> string \<Rightarrow> (string \<times> LegacyMode) list" where
  "legacy_rows db digest = concat (map (\<lambda>c. map (\<lambda>t. (cl_tenant_id c, tn_legacy_key_mode t))
       (filter (\<lambda>t. tn_tenant_id t = cl_tenant_id c) (db_tenants db)))
     (filter (\<lambda>c. cl_legacy_key_hash c = Some digest \<and> cl_revoked_at c = None) (db_client_ids db)))"

definition ResolveLegacy :: "pg_outcome \<Rightarrow> control_db \<Rightarrow> string \<Rightarrow> store_error + string \<times> LegacyMode" where
  "ResolveLegacy pg db raw =
     (if pg \<noteq> Executed then Inl ErrQuery
      else case legacy_rows db (Sum256 raw) of [] \<Rightarrow> Inl ErrNotFound | r # _ \<Rightarrow> Inr r)"

section \<open>keys.go\<close>

record SigningKey =
  sy_KID :: string
  sy_Private :: string

definition is_active :: "signing_row \<Rightarrow> bool" where
  "is_active k \<longleftrightarrow> sg_active k \<and> sg_retired_at k = None"

definition ActiveSigningKey :: "pg_outcome \<Rightarrow> control_db \<Rightarrow> store_error + SigningKey" where
  "ActiveSigningKey pg db =
     (if pg \<noteq> Executed then Inl ErrQuery
      else case filter is_active (db_signing_keys db) of
        [] \<Rightarrow> Inl ErrNotFound
      | k # _ \<Rightarrow> Inr \<lparr>sy_KID = sg_kid k, sy_Private = sg_private_key k\<rparr>)"

text \<open>\<open>jwk.Import\<close> and \<open>Set.AddKey\<close> are parameters; \<open>key.Set\<close> records the key id and the use.\<close>

record jwk_lib =
  jl_Import :: "string \<Rightarrow> jwk option"
  jl_AddKey :: "jwk \<Rightarrow> jwk_set \<Rightarrow> jwk_set option"

definition published :: "string \<Rightarrow> jwk \<Rightarrow> jwk" where
  "published kid pk = pk\<lparr>jk_KeyID := Some kid, jk_KeyUsage := Some ''sig''\<rparr>"

fun collect_keys :: "jwk_lib \<Rightarrow> signing_row list \<Rightarrow> jwk_set \<Rightarrow> store_error + jwk_set" where
  "collect_keys J [] acc = Inr acc"
| "collect_keys J (k # ks) acc = (case jl_Import J (sg_public_key k) of
      None \<Rightarrow> Inl (ErrImport (sg_kid k))
    | Some pk \<Rightarrow> (case jl_AddKey J (published (sg_kid k) pk) acc of
        None \<Rightarrow> Inl ErrAddKey
      | Some acc' \<Rightarrow> collect_keys J ks acc'))"

definition PublicJWKS :: "jwk_lib \<Rightarrow> pg_outcome \<Rightarrow> control_db \<Rightarrow> store_error + jwk_set" where
  "PublicJWKS J pg db =
     (if pg \<noteq> Executed then Inl ErrQuery
      else collect_keys J (filter (\<lambda>k. sg_retired_at k = None) (db_signing_keys db)) [])"

text \<open>
  \<open>INSERT ... SELECT ... WHERE NOT EXISTS (...) ON CONFLICT DO NOTHING\<close>: the guard reads the snapshot;
  the primary key and the index \<open>signing_keys_one_active\<close> are those of the current table.
\<close>

definition insert_signing_key :: "signing_row list \<Rightarrow> signing_row \<Rightarrow> signing_row list \<Rightarrow> nat \<times> signing_row list" where
  "insert_signing_key snapshot new keys =
     (if list_ex is_active snapshot then (0, keys)
      else if sg_kid new \<in> set (map sg_kid keys) \<or> (is_active new \<and> list_ex is_active keys) then (0, keys)
      else (1, keys @ [new]))"

definition EnsureSigningKey :: "(string \<times> string) option \<Rightarrow> signing_row list \<Rightarrow> pg_outcome \<Rightarrow> pg_outcome \<Rightarrow> string \<Rightarrow>
    control_db \<Rightarrow> store_error option \<times> control_db" where
  "EnsureSigningKey gen snapshot pg pg' kid db = (case gen of
      None \<Rightarrow> (Some ErrKeyGen, db)
    | Some (pub, priv) \<Rightarrow>
        (let (n, keys) = insert_signing_key snapshot
               \<lparr>sg_kid = kid, sg_public_key = pub, sg_private_key = priv, sg_active = True, sg_retired_at = None\<rparr>
               (db_signing_keys db);
             db' = (if pg = NotExecuted then db else db\<lparr>db_signing_keys := keys\<rparr>)
         in if pg \<noteq> Executed then (Some ErrQuery, db')
            else if n > 0 then (None, db')
            else case ActiveSigningKey pg' db' of
              Inl _ \<Rightarrow> (Some ErrNoActiveKey, db')
            | Inr _ \<Rightarrow> (None, db')))"

lemma ResolveTenant_Inr:
  assumes "ResolveTenant pg db cid = Inr tid"
  shows "\<exists>c \<in> set (db_client_ids db). cl_client_id c = cid \<and> cl_revoked_at c = None \<and> cl_tenant_id c = tid"
proof -
  obtain c cs where "filter (\<lambda>c. cl_client_id c = cid \<and> cl_revoked_at c = None) (db_client_ids db) = c # cs" "cl_tenant_id c = tid"
    using assms by (auto simp: ResolveTenant_def split: if_splits list.splits)
  then show ?thesis by (metis (mono_tags, lifting) list.set_intros(1) mem_Collect_eq set_filter)
qed

section \<open>Install identities\<close>

text \<open>The constraints of the table \<open>installs\<close>.\<close>

definition installs_wf :: "control_db \<Rightarrow> bool" where
  "installs_wf db \<longleftrightarrow> distinct (map in_install_id (db_installs db)) \<and>
     distinct (map (\<lambda>i. (in_tenant_id i, row_anchor i)) (db_installs db))"

definition install_of :: "control_db \<Rightarrow> string \<times> anchor \<Rightarrow> string option" where
  "install_of db = (\<lambda>(t, a). map_option in_install_id (find_install t a (db_installs db)))"

type_synonym issue_call = "string option \<times> pg_outcome \<times> string \<times> string \<times> string \<times> string \<times> uint8"

definition call_key :: "issue_call \<Rightarrow> string \<times> anchor" where
  "call_key = (\<lambda>(rand, pg, tid, platform, subject, dk, tier). (tid, anchor_of subject dk))"

fun issue_all :: "(issue_call \<Rightarrow> 's \<Rightarrow> (store_error + string) \<times> 's) \<Rightarrow> issue_call list \<Rightarrow> 's \<Rightarrow>
    (store_error + string) list" where
  "issue_all issue [] s = []"
| "issue_all issue (x # xs) s = fst (issue x s) # issue_all issue xs (snd (issue x s))"

text \<open>The interface the token handler relies on: a key that has an install keeps it.\<close>

locale install_issuer =
  fixes issue :: "issue_call \<Rightarrow> 's \<Rightarrow> (store_error + string) \<times> 's"
    and lookup_install :: "'s \<Rightarrow> string \<times> anchor \<Rightarrow> string option"
  assumes keeps: "lookup_install s k = Some i \<Longrightarrow> lookup_install (snd (issue x s)) k = Some i"
    and answers: "issue x s = (Inr i, s') \<Longrightarrow> lookup_install s' (call_key x) = Some i"
begin

lemma issue_all_known:
  "lookup_install s (call_key x) = Some i \<Longrightarrow> j < length xs \<Longrightarrow> call_key (xs ! j) = call_key x \<Longrightarrow>
   issue_all issue xs s ! j = Inr i' \<Longrightarrow> i' = i"
proof (induction xs arbitrary: s j)
  case (Cons y ys)
  obtain res s' where st: "issue y s = (res, s')" by fastforce
  have known: "lookup_install s' (call_key x) = Some i" using keeps [OF Cons.prems(1), of y] st by simp
  show ?case
  proof (cases j)
    case 0
    with Cons.prems st answers [of y s i' s'] known show ?thesis by simp
  next
    case (Suc j')
    with Cons.IH [OF known, of j'] Cons.prems st show ?thesis by simp
  qed
qed simp

lemma stable:
  assumes "issue x s = (Inr i, s')" "j < length xs" "call_key (xs ! j) = call_key x" "issue_all issue xs s' ! j = Inr i'"
  shows "i' = i"
  using issue_all_known [OF answers [OF assms(1)] assms(2-4)] .

end

definition issue_install :: "issue_call \<Rightarrow> control_db \<Rightarrow> (store_error + string) \<times> control_db" where
  "issue_install = (\<lambda>(rand, pg, tid, platform, subject, dk, tier). IssueInstall rand pg tid platform subject dk tier)"

lemma row_anchor_tier [simp]: "row_anchor (i\<lparr>in_trust_tier := tier\<rparr>) = row_anchor i"
  by (simp add: row_anchor_def split: option.split)

lemma find_install_map:
  "find_install t a (map (\<lambda>i. if P i then i\<lparr>in_trust_tier := tier\<rparr> else i) is) =
     map_option (\<lambda>i. if P i then i\<lparr>in_trust_tier := tier\<rparr> else i) (find_install t a is)"
  by (induction "is") (auto simp: find_install_def)

lemma find_install_append:
  "find_install t a (is @ [new]) = (case find_install t a is of Some i \<Rightarrow> Some i | None \<Rightarrow>
     if in_tenant_id new = t \<and> row_anchor new = a then Some new else None)"
  by (induction "is") (auto simp: find_install_def)

lemma upsert_install_lookup:
  assumes "upsert_install new db = Some (i, db')"
  shows "install_of db' = (install_of db)((in_tenant_id new, row_anchor new) \<mapsto> i)"
proof (cases "find_install (in_tenant_id new) (row_anchor new) (db_installs db)")
  case None
  with assms have "i = in_install_id new" "db' = db\<lparr>db_installs := db_installs db @ [new]\<rparr>"
    by (simp_all add: upsert_install_def split: if_splits)
  with None show ?thesis
    by (auto simp: install_of_def fun_eq_iff find_install_append split: option.splits)
next
  case (Some old)
  have "map_option in_install_id (find_install t a (db_installs db')) =
      map_option in_install_id (find_install t a (db_installs db))" for t a
    using assms Some by (auto simp: upsert_install_def find_install_map option.map_comp comp_def
        intro!: option.map_cong0)
  with assms Some show ?thesis by (auto simp: upsert_install_def install_of_def fun_eq_iff)
qed

lemma IssueInstall_cases:
  assumes "IssueInstall rand pg tid platform subject dk tier db = (res, db')"
  obtains (stored) new i where "upsert_install new db = Some (i, db')" "in_tenant_id new = tid"
      "row_anchor new = anchor_of subject dk" "\<And>j. res = Inr j \<Longrightarrow> j = i"
  | (untouched) e where "res = Inl e" "db' = db"
proof (cases rand)
  case None
  with assms untouched show thesis by (auto simp: IssueInstall_def)
next
  case (Some newID)
  define new where "new = \<lparr>in_install_id = ''ins_'' @ hex_EncodeToString newID, in_tenant_id = tid,
    in_platform = platform, in_trust_tier = tier,
    in_attest_subject = (if subject \<noteq> [] then Some subject else None), in_device_key = dk\<rparr>"
  have "in_tenant_id new = tid" "row_anchor new = anchor_of subject dk"
    by (simp_all add: new_def row_anchor_def anchor_of_def)
  moreover have "IssueInstall rand pg tid platform subject dk tier db =
      (case upsert_install new db of None \<Rightarrow> (Inl ErrQuery, db)
       | Some (i, db') \<Rightarrow> (case pg of Executed \<Rightarrow> (Inr i, db') | ReplyLost \<Rightarrow> (Inl ErrQuery, db')
                        | NotExecuted \<Rightarrow> (Inl ErrQuery, db)))"
    by (simp add: IssueInstall_def Some new_def)
  ultimately show thesis
    using assms stored [of new] untouched by (auto split: option.splits pg_outcome.splits)
qed

interpretation installs: install_issuer issue_install install_of
proof
  fix db k i and x :: issue_call
  assume known: "install_of db k = Some i"
  obtain rand pg tid platform subject dk tier where x: "x = (rand, pg, tid, platform, subject, dk, tier)"
    by (cases x)
  obtain res db' where run: "IssueInstall rand pg tid platform subject dk tier db = (res, db')" by fastforce
  then show "install_of (snd (issue_install x db)) k = Some i"
  proof (cases rule: IssueInstall_cases)
    case (stored new j)
    have "k = (tid, anchor_of subject dk) \<Longrightarrow> j = i"
      using stored(1-3) known by (auto simp: install_of_def upsert_install_def)
    with upsert_install_lookup [OF stored(1)] stored(2,3) known run show ?thesis
      by (auto simp: issue_install_def x)
  qed (use known run in \<open>simp add: issue_install_def x\<close>)
next
  fix x :: issue_call and db i db'
  assume "issue_install x db = (Inr i, db')"
  moreover obtain rand pg tid platform subject dk tier where x: "x = (rand, pg, tid, platform, subject, dk, tier)"
    by (cases x)
  ultimately have run: "IssueInstall rand pg tid platform subject dk tier db = (Inr i, db')"
    by (simp add: issue_install_def)
  then show "install_of db' (call_key x) = Some i"
    by (cases rule: IssueInstall_cases) (auto simp: x call_key_def upsert_install_lookup)
qed

text \<open>
  The install identity is stable: once \<open>IssueInstall\<close> has answered an install id for a tenant and
  an anchor (the attested subject, or the device key when there is none), every later answer for the
  same tenant and anchor is that id, whatever else is issued in between, lost replies and failed
  statements included, so re-exchanging never gives a client a fresh rate-limit bucket.
\<close>

lemma IssueInstall_stable:
  assumes "issue_install x db = (Inr i, db')" "j < length xs" "call_key (xs ! j) = call_key x"
    and "issue_all issue_install xs db' ! j = Inr i'"
  shows "i' = i"
  using assms by (rule installs.stable)

definition sample_db :: control_db where
  "sample_db = \<lparr>db_tenants = [\<lparr>tn_tenant_id = ''t1'', tn_legacy_key_mode = ''dual_accept''\<rparr>],
     db_client_ids = [\<lparr>cl_client_id = ''c1'', cl_tenant_id = ''t1'', cl_revoked_at = None,
       cl_legacy_key_hash = None\<rparr>],
     db_quotas = [], db_installs = [], db_signing_keys = []\<rparr>"

lemma IssueInstall_up:
  assumes "tid \<in> set (map tn_tenant_id (db_tenants db))"
    "''ins_'' @ hex_EncodeToString raw \<notin> set (map in_install_id (db_installs db))"
  shows "\<exists>i db'. IssueInstall (Some raw) Executed tid platform subject dk tier db = (Inr i, db')"
  using assms by (auto simp: IssueInstall_def upsert_install_def Let_def split: option.splits)

lemmas install_evals = issue_install_def IssueInstall_def upsert_install_def find_install_def
  row_anchor_def anchor_of_def call_key_def sample_db_def Let_def

lemma find_install_in:
  "find_install t a is = Some i \<Longrightarrow> i \<in> set is \<and> in_tenant_id i = t \<and> row_anchor i = a"
  by (auto simp: find_install_def find_Some_iff)

lemma find_install_None:
  "find_install t a is = None \<Longrightarrow> i \<in> set is \<Longrightarrow> in_tenant_id i = t \<Longrightarrow> row_anchor i \<noteq> a"
  by (auto simp: find_install_def find_None_iff)

lemma upsert_install_wf:
  assumes "installs_wf db" "upsert_install new db = Some (i, db')"
  shows "installs_wf db'"
proof (cases "find_install (in_tenant_id new) (row_anchor new) (db_installs db)")
  case None
  with assms show ?thesis
    using find_install_None [OF None] by (fastforce simp: upsert_install_def installs_wf_def split: if_splits)
next
  case (Some old)
  have "map in_install_id (db_installs db') = map in_install_id (db_installs db)"
    "map (\<lambda>i. (in_tenant_id i, row_anchor i)) (db_installs db') =
     map (\<lambda>i. (in_tenant_id i, row_anchor i)) (db_installs db)"
    using assms(2) Some by (auto simp: upsert_install_def)
  with assms(1) show ?thesis by (simp add: installs_wf_def)
qed

lemma installs_wf_inj:
  assumes "installs_wf db" "install_of db k = Some i" "install_of db k' = Some i"
  shows "k = k'"
proof -
  obtain r r' where r: "find_install (fst k) (snd k) (db_installs db) = Some r"
      "find_install (fst k') (snd k') (db_installs db) = Some r'" "in_install_id r = i" "in_install_id r' = i"
    using assms(2,3) by (auto simp: install_of_def split: prod.splits)
  then have "r = r'"
    using assms(1) find_install_in [OF r(1)] find_install_in [OF r(2)]
    by (auto simp: installs_wf_def distinct_map inj_on_def)
  then show ?thesis using find_install_in [OF r(1)] find_install_in [OF r(2)] by (simp add: prod_eq_iff)
qed

text \<open>
  Two tenants, or two devices or attested subjects of one tenant, never share an install id: every
  \<open>IssueInstall\<close> keeps the constraints of the table, and in a table that meets them the id answered
  belongs to the caller's tenant and anchor only.
\<close>

lemma IssueInstall_separates:
  assumes "installs_wf db" "IssueInstall rand pg tid platform subject dk tier db = (res, db')"
  shows "installs_wf db' \<and> (\<forall>i k. res = Inr i \<and> install_of db' k = Some i \<longrightarrow> k = (tid, anchor_of subject dk))"
proof (cases rule: IssueInstall_cases [OF assms(2)])
  case (1 new i)
  then have "installs_wf db'" using upsert_install_wf assms(1) by blast
  moreover have "install_of db' (tid, anchor_of subject dk) = Some i"
    using upsert_install_lookup [OF 1(1)] 1 by simp
  ultimately show ?thesis using 1(4) installs_wf_inj by blast
next
  case (2 e)
  with assms(1) show ?thesis by simp
qed

section \<open>Signing keys\<close>

definition signing_wf :: "control_db \<Rightarrow> bool" where
  "signing_wf db \<longleftrightarrow> distinct (map sg_kid (db_signing_keys db)) \<and>
     length (filter is_active (db_signing_keys db)) \<le> 1"

lemma list_ex_filter: "list_ex P xs \<longleftrightarrow> filter P xs \<noteq> []"
  by (induction xs) auto

lemma insert_signing_key_wf:
  assumes "distinct (map sg_kid ks) \<and> length (filter is_active ks) \<le> 1"
    "insert_signing_key snapshot new ks = (n, ks')"
  shows "distinct (map sg_kid ks') \<and> length (filter is_active ks') \<le> 1 \<and> (0 < n \<and> is_active new \<longrightarrow> list_ex is_active ks')"
  using assms by (auto simp: insert_signing_key_def list_ex_filter split: if_splits)

lemma ActiveSigningKey_iff:
  "(\<exists>k. ActiveSigningKey Executed db = Inr k) \<longleftrightarrow> list_ex is_active (db_signing_keys db)"
  by (auto simp: ActiveSigningKey_def list_ex_filter split: list.splits)

text \<open>
  Bootstrapping is safe under races: whatever stale snapshot the guard reads and whichever
  statements fail, \<open>EnsureSigningKey\<close> keeps the key ids distinct and at most one key active, never
  removes or changes a key, and when it reports success there is an active key to mint with.
\<close>

lemma EnsureSigningKey_ok:
  assumes "signing_wf db" "EnsureSigningKey gen snapshot pg pg' kid db = (err, db')"
  shows "signing_wf db' \<and> (\<exists>added. db_signing_keys db' = db_signing_keys db @ added) \<and>
    (err = None \<longrightarrow> (\<exists>k. ActiveSigningKey Executed db' = Inr k))"
proof (cases gen)
  case None
  with assms show ?thesis by (auto simp: EnsureSigningKey_def)
next
  case (Some kp)
  obtain pub priv where kp: "kp = (pub, priv)" by (cases kp)
  define new where "new = \<lparr>sg_kid = kid, sg_public_key = pub, sg_private_key = priv, sg_active = True,
    sg_retired_at = None\<rparr>"
  obtain n ks where ins: "insert_signing_key snapshot new (db_signing_keys db) = (n, ks)" by fastforce
  have wf: "signing_wf (db\<lparr>db_signing_keys := ks\<rparr>)" "0 < n \<Longrightarrow> list_ex is_active ks"
    using insert_signing_key_wf [OF _ ins] assms(1) by (simp_all add: signing_wf_def new_def is_active_def)
  have added: "\<exists>added. ks = db_signing_keys db @ added"
    using ins by (auto simp: insert_signing_key_def split: if_splits)
  have "ActiveSigningKey pg' db'' = Inr k \<Longrightarrow> ActiveSigningKey Executed db'' = Inr k" for db'' k
    by (simp add: ActiveSigningKey_def split: if_splits)
  then show ?thesis
    using assms ins wf added Some kp ActiveSigningKey_iff [of db']
    by (auto simp: EnsureSigningKey_def new_def Let_def split: if_splits sum.splits)
qed

text \<open>
  A key id that only a retired row uses is not reused: \<open>EnsureSigningKey\<close> then reports an error, and
  leaves the table as it is, instead of starting a service that has no key to mint with.
\<close>

lemma EnsureSigningKey_retired_kid:
  assumes "kid \<in> set (map sg_kid (db_signing_keys db))" "\<not> list_ex is_active (db_signing_keys db)"
  shows "EnsureSigningKey (Some kp) (db_signing_keys db) Executed pg' kid db = (Some ErrNoActiveKey, db)"
proof -
  obtain pub priv where kp: "kp = (pub, priv)" by (cases kp)
  have "ActiveSigningKey pg' db = Inl (if pg' = Executed then ErrNotFound else ErrQuery)"
    using assms(2) by (auto simp: ActiveSigningKey_def list_ex_filter)
  then show ?thesis
    using assms by (auto simp: EnsureSigningKey_def insert_signing_key_def kp)
qed

definition retired_db :: control_db where
  "retired_db = sample_db\<lparr>db_signing_keys := [\<lparr>sg_kid = ''kid-1'', sg_public_key = ''p'',
     sg_private_key = ''s'', sg_active = False, sg_retired_at = Some 0\<rparr>]\<rparr>"

section \<open>The published key set\<close>

text \<open>What \<open>jwx\<close> documents: an Ed25519 public key imports as an OKP key on that curve, and a key is added
  at the end of the set.\<close>

definition imports_ed25519 :: "jwk_lib \<Rightarrow> bool" where
  "imports_ed25519 J \<longleftrightarrow>
     (\<forall>pub k. jl_Import J pub = Some k \<longrightarrow> jk_KeyType k = ''OKP'' \<and> jk_crv k = Some ''Ed25519'' \<and> jk_public k = pub)
   \<and> (\<forall>k s s'. jl_AddKey J k s = Some s' \<longrightarrow> s' = s @ [k])"

lemma collect_keys_all:
  assumes "imports_ed25519 J"
  shows "collect_keys J ks acc = Inr s \<Longrightarrow> \<exists>pks. s = acc @ pks \<and>
    list_all2 (\<lambda>k pk. jk_KeyID pk = Some (sg_kid k) \<and> jk_KeyUsage pk = Some ''sig'' \<and> jk_KeyType pk = ''OKP'' \<and>
      jk_crv pk = Some ''Ed25519'' \<and> jk_public pk = sg_public_key k) ks pks"
proof (induction ks arbitrary: acc)
  case (Cons k ks)
  then obtain pk where pk: "jl_Import J (sg_public_key k) = Some pk"
    and rest: "collect_keys J ks (acc @ [published (sg_kid k) pk]) = Inr s"
    using assms by (auto simp: imports_ed25519_def split: option.splits)
  from Cons.IH [OF rest] obtain pks where "s = (acc @ [published (sg_kid k) pk]) @ pks"
    "list_all2 (\<lambda>k pk. jk_KeyID pk = Some (sg_kid k) \<and> jk_KeyUsage pk = Some ''sig'' \<and> jk_KeyType pk = ''OKP'' \<and>
      jk_crv pk = Some ''Ed25519'' \<and> jk_public pk = sg_public_key k) ks pks" by blast
  with pk assms show ?case
    by (intro exI [of _ "published (sg_kid k) pk # pks"]) (simp add: published_def imports_ed25519_def)
qed simp

lemma first_kid_list_all2:
  assumes "list_all2 (\<lambda>k pk. jk_KeyID pk = Some (sg_kid k) \<and> Q k pk) ks pks" "k \<in> set ks" "distinct (map sg_kid ks)"
  shows "\<exists>pk. first_kid pks (sg_kid k) = Some pk \<and> Q k pk"
  using assms
proof (induction ks pks rule: list_all2_induct)
  case (Cons k' ks pk pks)
  then show ?case by (cases "k = k'") (auto simp: first_kid_def)
qed simp

lemma active_key_in_jwks:
  assumes "signing_wf db" "imports_ed25519 J" "ActiveSigningKey Executed db = Inr sk" "PublicJWKS J Executed db = Inr s"
  shows "\<exists>pk row. row \<in> set (db_signing_keys db) \<and> sg_private_key row = sy_Private sk \<and>
    first_kid s (sy_KID sk) = Some pk \<and> jk_public pk = sg_public_key row \<and>
    jk_KeyUsage pk = Some ''sig'' \<and> jk_KeyType pk = ''OKP'' \<and> jk_crv pk = Some ''Ed25519''"
proof -
  let ?live = "filter (\<lambda>k. sg_retired_at k = None) (db_signing_keys db)"
  obtain row where row: "row \<in> set (db_signing_keys db)" "is_active row" "sy_KID sk = sg_kid row"
      "sy_Private sk = sg_private_key row"
  proof (cases "filter is_active (db_signing_keys db)")
    case (Cons r rs)
    then have "r \<in> set (db_signing_keys db) \<and> is_active r"
      by (metis list.set_intros(1) mem_Collect_eq set_filter)
    with that assms(3) Cons show thesis by (auto simp: ActiveSigningKey_def)
  qed (use assms(3) in \<open>simp add: ActiveSigningKey_def\<close>)
  then have live: "row \<in> set ?live" by (simp add: is_active_def)
  have "distinct (map sg_kid ?live)" using assms(1) by (simp add: signing_wf_def distinct_map_filter)
  with collect_keys_all [OF assms(2), of ?live "[]" s] first_kid_list_all2 [OF _ live] assms(4) row
  show ?thesis by (fastforce simp: PublicJWKS_def)
qed

definition plain_jwk_lib :: jwk_lib where
  "plain_jwk_lib = \<lparr>jl_Import = (\<lambda>pub. Some \<lparr>jk_KeyID = None, jk_KeyUsage = None, jk_KeyType = ''OKP'',
       jk_crv = Some ''Ed25519'', jk_public = pub\<rparr>), jl_AddKey = (\<lambda>k s. Some (s @ [k]))\<rparr>"

section \<open>Access through legacy keys\<close>

text \<open>\<open>legacyResolver\<close> of \<open>main.go\<close>: the store as the resolver of the verifier.\<close>

definition legacyResolver :: "pg_outcome \<Rightarrow> control_db \<Rightarrow> LegacyResolver" where
  "legacyResolver pg db raw = (case ResolveLegacy pg db raw of Inl _ \<Rightarrow> None | Inr r \<Rightarrow> Some r)"

lemma legacyResolver_Some:
  assumes "legacyResolver pg db raw = Some (tid, mode)"
  shows "\<exists>c t. c \<in> set (db_client_ids db) \<and> t \<in> set (db_tenants db) \<and> cl_legacy_key_hash c = Some (Sum256 raw) \<and>
    cl_revoked_at c = None \<and> cl_tenant_id c = tid \<and> tn_tenant_id t = tid \<and> tn_legacy_key_mode t = mode"
proof -
  have "(tid, mode) \<in> set (legacy_rows db (Sum256 raw))"
    using assms by (auto simp: legacyResolver_def ResolveLegacy_def split: sum.splits if_splits list.splits)
  then show ?thesis by (auto simp: legacy_rows_def)
qed

text \<open>
  C35. A legacy bearer is let in only through a client row that holds its SHA-256 digest, has not been
  revoked, and whose tenant is still in one of the two accepting modes; the claims then name that
  tenant. Revoking the row or moving the tenant to \<open>cutoff\<close> closes the door for the next request.
\<close>

theorem legacy_access_needs_live_row:
  assumes "VerifyOrLegacy X (legacyResolver pg db) bearer now v = ((Inr c, True), v')"
  shows "\<exists>r t. r \<in> set (db_client_ids db) \<and> t \<in> set (db_tenants db) \<and>
    cl_legacy_key_hash r = Some (Sum256 (stripBearer bearer)) \<and> cl_revoked_at r = None \<and>
    cl_tenant_id r = c_TenantID c \<and> tn_tenant_id t = c_TenantID c \<and>
    tn_legacy_key_mode t \<in> {''dual_accept'', ''deprecating''}"
  using VerifyOrLegacy_Inr_legacy [OF assms] legacyResolver_Some [of pg db "stripBearer bearer"]
  by blast

definition legacy_db :: control_db where
  "legacy_db = sample_db\<lparr>db_client_ids := [\<lparr>cl_client_id = ''c1'', cl_tenant_id = ''t1'', cl_revoked_at = None,
     cl_legacy_key_hash = Some (Sum256 ''wk_live_a'')\<rparr>]\<rparr>"

theorem legacy_access_needs_live_row_witness:
  "\<exists>c v'. VerifyOrLegacy sample_jwx (legacyResolver Executed legacy_db) ''bearer wk_live_a'' 0
     (NewVerifier [] [] []) = ((Inr c, True), v') \<and> c_TenantID c = ''t1''"
proof -
  obtain c v' where run: "VerifyOrLegacy sample_jwx (legacyResolver Executed legacy_db) ''bearer wk_live_a'' 0
     (NewVerifier [] [] []) = ((Inr c, True), v')"
    by (simp add: VerifyOrLegacy_def stripBearer_legacy_example LegacyPrefix_def HasPrefix_def
        legacyResolver_def ResolveLegacy_def legacy_rows_def legacy_db_def sample_db_def mode_defs)
  from legacy_access_needs_live_row [OF run] run show ?thesis by (auto simp: legacy_db_def sample_db_def)
qed

end
