(* ===== verification/Redis_Server.thy ===== *)
theory Redis_Server
  imports Go_Prelude
begin

text \<open>
  The Redis server the service talks to, as an interface: the commands the code sends
  (\<open>redis\<close>) and the documented meaning of each (\<open>redis_server\<close>), read off what the server shows of
  its keyspace at a time: \<open>view r t k\<close> is the value of a live key and its deadline, if it has one.
  Values are byte strings; a counter is the decimal text of an integer. \<open>mem_redis\<close> is the keyspace
  kept as a map in which expired entries linger unseen, and meets the interface.
\<close>

type_synonym entry = "(string \<times> gotime option) option"

record 'r redis =
  rd_GET :: "gotime \<Rightarrow> string \<Rightarrow> 'r \<Rightarrow> string option"
  rd_INCRBY :: "gotime \<Rightarrow> string \<Rightarrow> int \<Rightarrow> 'r \<Rightarrow> int option \<times> 'r"
  rd_EXPIRE :: "gotime \<Rightarrow> string \<Rightarrow> int \<Rightarrow> 'r \<Rightarrow> 'r"
  rd_TTL :: "gotime \<Rightarrow> string \<Rightarrow> 'r \<Rightarrow> int"
  rd_SET :: "gotime \<Rightarrow> string \<Rightarrow> string \<Rightarrow> duration \<Rightarrow> 'r \<Rightarrow> 'r"
  rd_GETDEL :: "gotime \<Rightarrow> string \<Rightarrow> 'r \<Rightarrow> string option \<times> 'r"

text \<open>What is left of an entry at time \<open>t\<close>.\<close>

definition live_at :: "gotime \<Rightarrow> entry \<Rightarrow> entry" where
  "live_at t x = (case x of Some (v, Some dl) \<Rightarrow> if t < dl then x else None | _ \<Rightarrow> x)"

text \<open>The integer a counter holds: 0 for a missing key, nothing for text that is no integer.\<close>

definition counter_of :: "entry \<Rightarrow> int option" where
  "counter_of x = (case x of None \<Rightarrow> Some 0 | Some (s, _) \<Rightarrow> atoi s)"

definition deadline_of :: "entry \<Rightarrow> gotime option" where
  "deadline_of x = (case x of None \<Rightarrow> None | Some (_, dl) \<Rightarrow> dl)"

definition incremented :: "entry \<Rightarrow> int \<Rightarrow> entry" where
  "incremented x v = Some (itoa v, deadline_of x)"

definition is_int64 :: "int \<Rightarrow> bool" where
  "is_int64 v \<longleftrightarrow> - (2 ^ 63) \<le> v \<and> v < 2 ^ 63"

definition overflows :: "entry \<Rightarrow> int \<Rightarrow> bool" where
  "overflows x n \<longleftrightarrow> (case counter_of x of None \<Rightarrow> True | Some v \<Rightarrow> \<not> is_int64 (v + n))"

locale redis_server =
  fixes R :: "'r redis"
    and view :: "'r \<Rightarrow> gotime \<Rightarrow> string \<Rightarrow> entry"
  assumes passes: "t \<le> t' \<Longrightarrow> view r t' k = live_at t' (view r t k)"
    and GET: "rd_GET R t k r = map_option fst (view r t k)"
    and INCRBY_ok: "counter_of (view r t k) = Some v \<Longrightarrow> is_int64 (v + n) \<Longrightarrow>
      fst (rd_INCRBY R t k n r) = Some (v + n) \<and>
      view (snd (rd_INCRBY R t k n r)) t = (view r t)(k := incremented (view r t k) (v + n))"
    and INCRBY_err: "overflows (view r t k) n \<Longrightarrow>
      fst (rd_INCRBY R t k n r) = None \<and> view (snd (rd_INCRBY R t k n r)) t = view r t"
    and EXPIRE: "view (rd_EXPIRE R t k s r) t = (case view r t k of
        None \<Rightarrow> view r t
      | Some (v, _) \<Rightarrow> (view r t)(k := live_at t (Some (v, Some (t + s * Second)))))"
    and TTL: "rd_TTL R t k r < 0 \<longleftrightarrow> deadline_of (view r t k) = None"
    and SET: "0 < d \<Longrightarrow> view (rd_SET R t k val d r) t = (view r t)(k \<mapsto> (val, Some (t + d)))"
    and GETDEL: "fst (rd_GETDEL R t k r) = map_option fst (view r t k) \<and>
      view (snd (rd_GETDEL R t k r)) t = (view r t)(k := None)"
begin

lemma INCRBY_cases:
  obtains (incremented) v r' where "counter_of (view r t k) = Some v"
      "rd_INCRBY R t k n r = (Some (v + n), r')"
      "view r' t = (view r t)(k := incremented (view r t k) (v + n))"
  | (refused) r' where "rd_INCRBY R t k n r = (None, r')" "view r' t = view r t" "overflows (view r t k) n"
proof (cases "overflows (view r t k) n")
  case True
  then show thesis using refused INCRBY_err [of r t k n] by (metis prod.collapse)
next
  case False
  then obtain v where "counter_of (view r t k) = Some v" "is_int64 (v + n)"
    by (auto simp: overflows_def split: option.splits)
  then show thesis using incremented INCRBY_ok [of r t k v n] by (metis prod.collapse)
qed

end

section \<open>A keyspace as a map\<close>

type_synonym keyspace = "string \<Rightarrow> entry"

definition mem_view :: "keyspace \<Rightarrow> gotime \<Rightarrow> string \<Rightarrow> entry" where
  "mem_view m t k = live_at t (m k)"

definition mem_GET :: "gotime \<Rightarrow> string \<Rightarrow> keyspace \<Rightarrow> string option" where
  "mem_GET t k m = map_option fst (mem_view m t k)"

definition mem_INCRBY :: "gotime \<Rightarrow> string \<Rightarrow> int \<Rightarrow> keyspace \<Rightarrow> int option \<times> keyspace" where
  "mem_INCRBY t k n m = (case counter_of (mem_view m t k) of
      None \<Rightarrow> (None, m)
    | Some v \<Rightarrow> if is_int64 (v + n) then (Some (v + n), m(k := incremented (mem_view m t k) (v + n)))
               else (None, m))"

definition mem_EXPIRE :: "gotime \<Rightarrow> string \<Rightarrow> int \<Rightarrow> keyspace \<Rightarrow> keyspace" where
  "mem_EXPIRE t k s m = (case mem_view m t k of
      None \<Rightarrow> m
    | Some (v, _) \<Rightarrow> m(k \<mapsto> (v, Some (t + s * Second))))"

definition mem_TTL :: "gotime \<Rightarrow> string \<Rightarrow> keyspace \<Rightarrow> int" where
  "mem_TTL t k m = (case mem_view m t k of
      None \<Rightarrow> - 2
    | Some (v, None) \<Rightarrow> - 1
    | Some (v, Some dl) \<Rightarrow> (dl - t) div Second)"

definition mem_redis :: "keyspace redis" where
  "mem_redis = \<lparr>rd_GET = mem_GET, rd_INCRBY = mem_INCRBY, rd_EXPIRE = mem_EXPIRE, rd_TTL = mem_TTL,
     rd_SET = (\<lambda>t k v d m. m(k \<mapsto> (v, Some (t + d)))),
     rd_GETDEL = (\<lambda>t k m. (mem_GET t k m, m(k := None)))\<rparr>"

lemma live_at_live_at: "t \<le> t' \<Longrightarrow> live_at t' (live_at t x) = live_at t' x"
  by (auto simp: live_at_def split: option.splits)

lemma live_at_incremented: "live_at t (incremented (live_at t x) v) = incremented (live_at t x) v"
  by (auto simp: live_at_def incremented_def deadline_of_def split: option.splits)

lemma mem_view_upd: "mem_view (m(k := x)) t = (mem_view m t)(k := live_at t x)"
  by (auto simp: mem_view_def)

lemma mem_view_deadline: "mem_view m t k = Some (v, Some dl) \<Longrightarrow> t < dl"
  by (auto simp: mem_view_def live_at_def split: option.splits if_splits)

interpretation mem: redis_server mem_redis mem_view
proof
  fix t t' :: gotime and m k
  assume "t \<le> t'"
  then show "mem_view m t' k = live_at t' (mem_view m t k)"
    by (simp add: mem_view_def live_at_live_at)
next
  fix m t k v n
  assume "counter_of (mem_view m t k) = Some v" "is_int64 (v + n)"
  then show "fst (rd_INCRBY mem_redis t k n m) = Some (v + n) \<and>
    mem_view (snd (rd_INCRBY mem_redis t k n m)) t = (mem_view m t)(k := incremented (mem_view m t k) (v + n))"
    by (simp add: mem_redis_def mem_INCRBY_def mem_view_upd) (simp add: mem_view_def live_at_incremented)
next
  fix m t k
  show "(rd_TTL mem_redis t k m < 0) = (deadline_of (mem_view m t k) = None)"
    using mem_view_deadline [of m t k]
    by (auto simp: mem_redis_def mem_TTL_def deadline_of_def pos_imp_zdiv_nonneg_iff not_less
        split: option.splits)
qed (auto simp: mem_redis_def mem_GET_def mem_INCRBY_def overflows_def mem_EXPIRE_def mem_view_upd live_at_def
    split: option.splits)

end
