(* ===== verification/Quota_Checker.thy ===== *)
theory Quota_Checker
  imports Redis_Server Go_Date Pkg_Limits Tenant_Token
begin

text \<open>
  \<open>services/ingest/internal/quota\<close>: the two Lua scripts and the checker that runs them. A script
  runs atomically at one server time. \<open>transport\<close> says what became of a round trip: \<open>Answered\<close> at a
  server time, \<open>Lost\<close> (the script ran but its reply never arrived) or \<open>Refused\<close> (it never ran). A
  retry the client library makes on its own is one more \<open>Lost\<close> round trip before the last one.

  A Lua number is a double: \<open>lua_num\<close> rounds an integer to 53 significant bits, ties to even. The
  counters are only ever written by \<open>INCRBY\<close>, so the text \<open>tonumber\<close> reads is a decimal integer.
\<close>

section \<open>Lua numbers\<close>

fun extra_bits :: "nat \<Rightarrow> nat" where
  "extra_bits m = (if m < 2 ^ 53 then 0 else Suc (extra_bits (m div 2)))"

declare extra_bits.simps [simp del]

definition round53 :: "nat \<Rightarrow> nat" where
  "round53 m = (let s = extra_bits m; q = m div 2 ^ s; rest = m mod 2 ^ s
     in (if 2 ^ s < 2 * rest \<or> (2 ^ s = 2 * rest \<and> odd q) then q + 1 else q) * 2 ^ s)"

definition lua_num :: "int \<Rightarrow> int" where
  "lua_num i = sgn i * int (round53 (nat \<bar>i\<bar>))"

lemma round53_id: "m < 2 ^ 53 \<Longrightarrow> round53 m = m"
  by (simp add: round53_def extra_bits.simps)

lemma extra_bits_quotient: "2 ^ 53 \<le> m \<Longrightarrow> 0 < extra_bits m \<and> 2 ^ 52 \<le> m div 2 ^ extra_bits m"
proof (induction m rule: extra_bits.induct)
  case (1 m)
  show ?case
  proof (cases "m div 2 < 2 ^ 53")
    case True
    with 1 have "extra_bits m = 1" by (simp add: extra_bits.simps [of m] extra_bits.simps [of "m div 2"])
    with 1 show ?thesis by simp
  next
    case False
    with 1 have "extra_bits m = Suc (extra_bits (m div 2))" by (simp add: extra_bits.simps [of m])
    with 1 False show ?thesis by (simp add: div_mult2_eq)
  qed
qed

lemma round53_large:
  assumes "2 ^ 53 \<le> m"
  shows "2 ^ 53 \<le> round53 m"
proof -
  define s where "s = extra_bits m"
  have s: "0 < s" "2 ^ 52 \<le> m div 2 ^ s"
    using extra_bits_quotient [OF assms] by (simp_all add: s_def)
  then obtain s' where "s = Suc s'" by (cases s) auto
  then have "2 \<le> (2 :: nat) ^ s" by simp
  with s have "2 ^ 52 * 2 \<le> m div 2 ^ s * 2 ^ s" by (intro mult_le_mono) simp_all
  also have "\<dots> \<le> round53 m" by (simp add: round53_def s_def Let_def)
  finally show ?thesis by simp
qed

lemma lua_num_exact [simp]: "- (2 ^ 53) < i \<Longrightarrow> i < 2 ^ 53 \<Longrightarrow> lua_num i = i"
  using round53_id [of "nat \<bar>i\<bar>"] by (simp add: lua_num_def sgn_if split: if_splits)

lemma lua_num_le:
  assumes "lua_num i \<le> L" "0 \<le> L" "L < 2 ^ 53"
  shows "i \<le> L"
proof (rule ccontr)
  assume "\<not> i \<le> L"
  then have pos: "0 < i" using assms(2) by simp
  show False
  proof (cases "i < 2 ^ 53")
    case True
    with pos assms \<open>\<not> i \<le> L\<close> show False by simp
  next
    case False
    with pos have "2 ^ 53 \<le> lua_num i"
      using round53_large [of "nat i"] by (simp add: lua_num_def)
    with assms show False by simp
  qed
qed

section \<open>The admission script\<close>

definition lua_GET :: "'r redis \<Rightarrow> gotime \<Rightarrow> string \<Rightarrow> 'r \<Rightarrow> int option" where
  "lua_GET R t k r = (case rd_GET R t k r of None \<Rightarrow> Some 0 | Some s \<Rightarrow> map_option lua_num (atoi s))"

text \<open>\<open>lim > 0 and count + n > lim\<close>; arithmetic on the \<open>nil\<close> of a failed \<open>tonumber\<close> is an error.\<close>

definition over_limit :: "int option \<Rightarrow> int \<Rightarrow> int \<Rightarrow> bool option" where
  "over_limit count n limit =
     (if limit \<le> 0 then Some False
      else case count of None \<Rightarrow> None | Some c \<Rightarrow> Some (limit < lua_num (c + n)))"

definition incr_expire :: "'r redis \<Rightarrow> gotime \<Rightarrow> string \<Rightarrow> int \<Rightarrow> int \<Rightarrow> 'r \<Rightarrow> bool \<times> 'r" where
  "incr_expire R t k n ttl r = (case rd_INCRBY R t k n r of
      (None, r') \<Rightarrow> (False, r')
    | (Some _, r') \<Rightarrow> (True, rd_EXPIRE R t k ttl r'))"

definition consume :: "'r redis \<Rightarrow> gotime \<Rightarrow> string \<Rightarrow> string \<Rightarrow> int \<Rightarrow> int \<Rightarrow> int \<Rightarrow>
    'r \<Rightarrow> (int \<times> string) option \<times> 'r" where
  "consume R t rate_key day_key n rate_ttl day_ttl r =
     (case incr_expire R t rate_key n rate_ttl r of
        (False, r') \<Rightarrow> (None, r')
      | (True, r') \<Rightarrow>
          (case incr_expire R t day_key n day_ttl r' of
             (False, r'') \<Rightarrow> (None, r'')
           | (True, r'') \<Rightarrow> (Some (1, ''''), r'')))"

definition allowScript :: "'r redis \<Rightarrow> gotime \<Rightarrow> string \<Rightarrow> string \<Rightarrow> int \<Rightarrow> int \<Rightarrow> int \<Rightarrow> int \<Rightarrow> int \<Rightarrow>
    'r \<Rightarrow> (int \<times> string) option \<times> 'r" where
  "allowScript R t rate_key day_key arg1 arg2 arg3 rate_ttl day_ttl r =
     (let n = lua_num arg1; rps = lua_num arg2; daily = lua_num arg3 in
      case over_limit (lua_GET R t rate_key r) n rps of
        None \<Rightarrow> (None, r)
      | Some True \<Rightarrow> (Some (0, ''rate_limit''), r)
      | Some False \<Rightarrow>
          (case over_limit (lua_GET R t day_key r) n daily of
             None \<Rightarrow> (None, r)
           | Some True \<Rightarrow> (Some (0, ''daily_quota''), r)
           | Some False \<Rightarrow> consume R t rate_key day_key n rate_ttl day_ttl r))"

section \<open>The checker\<close>

datatype transport = Answered gotime | Lost gotime | Refused

definition run_script :: "(gotime \<Rightarrow> 'r \<Rightarrow> 'a option \<times> 'r) \<Rightarrow> transport \<Rightarrow> 'r \<Rightarrow> 'a option \<times> 'r" where
  "run_script script net r = (case net of
      Answered t \<Rightarrow> script t r
    | Lost t \<Rightarrow> (None, snd (script t r))
    | Refused \<Rightarrow> (None, r))"

record Decision =
  d_Allowed :: bool
  d_RetryAfter :: duration
  d_Reason :: string

datatype quota_error = QuotaCheck | ClientRateCheck

definition rateKey :: "Claims \<Rightarrow> gotime \<Rightarrow> string" where
  "rateKey cl now = ''rl:{'' @ c_TenantID cl @ ''}:'' @ c_InstallID cl @ '':'' @ itoa (Unix now)"

definition dayKey :: "Claims \<Rightarrow> gotime \<Rightarrow> string" where
  "dayKey cl now = ''q:{'' @ c_TenantID cl @ ''}:'' @ format_date now"

definition untilNextUTCDay :: "gotime \<Rightarrow> duration" where
  "untilNextUTCDay now = time_Sub (Truncate now (24 * Hour) + 24 * Hour) now"

definition Allow :: "'r redis \<Rightarrow> transport \<Rightarrow> Claims \<Rightarrow> Quota \<Rightarrow> int \<Rightarrow> gotime \<Rightarrow> 'r \<Rightarrow>
    (quota_error + Decision) \<times> 'r" where
  "Allow R net cl lm n now r =
     (case run_script (\<lambda>t. allowScript R t (rateKey cl now) (dayKey cl now)
                n (q_RPS lm) (q_DailyEvents lm) 2 (whole_seconds (48 * Hour))) net r of
        (None, r') \<Rightarrow> (Inl QuotaCheck, r')
      | (Some (allowed, reason), r') \<Rightarrow>
          (Inr (if allowed = 1 then \<lparr>d_Allowed = True, d_RetryAfter = 0, d_Reason = ''''\<rparr>
            else \<lparr>d_Allowed = False,
                  d_RetryAfter = (if reason = ''daily_quota'' then untilNextUTCDay now else Second),
                  d_Reason = reason\<rparr>), r'))"

definition clientRateScript :: "'r redis \<Rightarrow> gotime \<Rightarrow> string \<Rightarrow> int \<Rightarrow> 'r \<Rightarrow> int option \<times> 'r" where
  "clientRateScript R t k ttl r = (case rd_INCRBY R t k 1 r of
      (None, r') \<Rightarrow> (None, r')
    | (Some n, r') \<Rightarrow>
        (Some n, if n = 1 \<or> rd_TTL R t k r' < 0 then rd_EXPIRE R t k ttl r' else r'))"

definition AllowClient :: "'r redis \<Rightarrow> transport \<Rightarrow> string \<Rightarrow> int \<Rightarrow> duration \<Rightarrow> 'r \<Rightarrow>
    (quota_error + bool) \<times> 'r" where
  "AllowClient R net k limit window r =
     (case run_script (\<lambda>t. clientRateScript R t k (whole_seconds window)) net r of
        (None, r') \<Rightarrow> (Inl ClientRateCheck, r')
      | (Some n, r') \<Rightarrow> (Inr (n \<le> limit), r'))"

section \<open>What the scripts do to the keyspace\<close>

lemma lua_GET_counter:
  assumes "redis_server R view"
  shows "lua_GET R t k r = map_option lua_num (counter_of (view r t k))"
  using redis_server.GET [OF assms, of t k r] lua_num_exact [of 0]
  by (cases "view r t k") (auto simp: lua_GET_def counter_of_def)

lemma rateKey_dayKey: "rateKey cl now \<noteq> dayKey cl' now'"
  by (simp add: rateKey_def dayKey_def)

text \<open>A charged counter: its new value and the deadline \<open>EXPIRE\<close> gave it.\<close>

definition charged :: "int \<Rightarrow> gotime \<Rightarrow> int \<Rightarrow> entry" where
  "charged v t ttl = Some (itoa v, Some (t + ttl * Second))"

definition admits :: "entry \<Rightarrow> int \<Rightarrow> int \<Rightarrow> bool" where
  "admits x n limit \<longleftrightarrow> over_limit (map_option lua_num (counter_of x)) n limit = Some False"

context redis_server
begin

lemma incr_expire_cases:
  assumes "0 < ttl"
  obtains (bumped) v r' where "incr_expire R t k n ttl r = (True, r')" "counter_of (view r t k) = Some v"
      "view r' t = (view r t)(k := charged (v + n) t ttl)"
  | (stuck) r' where "incr_expire R t k n ttl r = (False, r')" "view r' t = view r t"
      "overflows (view r t k) n"
proof (cases rule: INCRBY_cases [of r t k n])
  case (incremented v r1)
  have "view (rd_EXPIRE R t k ttl r1) t = (view r t)(k := charged (v + n) t ttl)"
    using EXPIRE [of t k ttl r1] incremented(3) assms
    by (simp add: incremented_def charged_def live_at_def)
  with incremented(1,2) bumped show thesis by (simp add: incr_expire_def)
next
  case (refused r1)
  with stuck show thesis by (simp add: incr_expire_def)
qed

lemma consume_cases:
  assumes "0 < rttl" "0 < dttl" "rk \<noteq> dk" "consume R t rk dk n rttl dttl r = (res, r')"
  obtains (both) cr cd where "res = Some (1, '''')"
      "counter_of (view r t rk) = Some cr" "counter_of (view r t dk) = Some cd"
      "view r' t = (view r t)(rk := charged (cr + n) t rttl, dk := charged (cd + n) t dttl)"
  | (half) cr where "res = None" "counter_of (view r t rk) = Some cr"
      "view r' t = (view r t)(rk := charged (cr + n) t rttl)" "overflows (view r t dk) n"
  | (failed) "res = None" "view r' t = view r t" "overflows (view r t rk) n"
proof (cases rule: incr_expire_cases [OF assms(1), of t rk n r])
  case rate: (1 cr r1)
  then have dk: "view r1 t dk = view r t dk" using assms(3) by simp
  show thesis
  proof (cases rule: incr_expire_cases [OF assms(2), of t dk n r1])
    case (1 cd r2)
    with rate dk assms(4) both show thesis by (simp add: consume_def)
  next
    case (2 r2)
    with rate dk assms(4) half show thesis by (simp add: consume_def)
  qed
next
  case (2 r1)
  with assms(4) failed show thesis by (simp add: consume_def)
qed

text \<open>Every way a run of the admission script ends, and what it leaves of the keyspace.\<close>

lemma allowScript_cases:
  assumes "0 < rttl" "0 < dttl" "rk \<noteq> dk" "allowScript R t rk dk n rps daily rttl dttl r = (res, r')"
  obtains (admitted) cr cd where "res = Some (1, '''')"
      "counter_of (view r t rk) = Some cr" "counter_of (view r t dk) = Some cd"
      "admits (view r t rk) (lua_num n) (lua_num rps)" "admits (view r t dk) (lua_num n) (lua_num daily)"
      "view r' t = (view r t)(rk := charged (cr + lua_num n) t rttl, dk := charged (cd + lua_num n) t dttl)"
  | (rate) "res = Some (0, ''rate_limit'')" "r' = r"
      "over_limit (map_option lua_num (counter_of (view r t rk))) (lua_num n) (lua_num rps) = Some True"
  | (daily) "res = Some (0, ''daily_quota'')" "r' = r" "admits (view r t rk) (lua_num n) (lua_num rps)"
      "over_limit (map_option lua_num (counter_of (view r t dk))) (lua_num n) (lua_num daily) = Some True"
  | (half) cr where "res = None" "counter_of (view r t rk) = Some cr"
      "admits (view r t rk) (lua_num n) (lua_num rps)" "admits (view r t dk) (lua_num n) (lua_num daily)"
      "view r' t = (view r t)(rk := charged (cr + lua_num n) t rttl)" "overflows (view r t dk) (lua_num n)"
  | (failed) "res = None" "view r' t = view r t"
      "overflows (view r t rk) (lua_num n) \<or> overflows (view r t dk) (lua_num n)"
proof -
  have over_None: "over_limit (map_option lua_num (counter_of x)) m l = None \<Longrightarrow> overflows x m" for x m l
    by (auto simp: over_limit_def overflows_def split: if_splits option.splits)
  note gets = lua_GET_counter [OF redis_server_axioms]
  have unf: "allowScript R t rk dk n rps daily rttl dttl r =
     (case over_limit (map_option lua_num (counter_of (view r t rk))) (lua_num n) (lua_num rps) of
        None \<Rightarrow> (None, r)
      | Some True \<Rightarrow> (Some (0, ''rate_limit''), r)
      | Some False \<Rightarrow>
          (case over_limit (map_option lua_num (counter_of (view r t dk))) (lua_num n) (lua_num daily) of
             None \<Rightarrow> (None, r)
           | Some True \<Rightarrow> (Some (0, ''daily_quota''), r)
           | Some False \<Rightarrow> consume R t rk dk (lua_num n) rttl dttl r))"
    by (simp add: allowScript_def gets Let_def cong: option.case_cong bool.case_cong)
  show thesis
  proof (cases "admits (view r t rk) (lua_num n) (lua_num rps) \<and>
      admits (view r t dk) (lua_num n) (lua_num daily)")
    case ok: True
    then have "consume R t rk dk (lua_num n) rttl dttl r = (res, r')"
      using assms(4) unf by (simp add: admits_def)
    then show thesis
      by (rule consume_cases [OF assms(1-3)]) (use ok admitted half failed in blast)+
  next
    case False
    with assms(4) unf rate daily failed show thesis
      by (auto simp: admits_def dest: over_None split: option.splits bool.splits)
  qed
qed

lemma clientRateScript_cases:
  assumes "0 < ttl" "clientRateScript R t k ttl r = (res, r')"
  obtains (counted) c dl where "res = Some (c + 1)" "counter_of (view r t k) = Some c"
      "view r' t = (view r t)(k \<mapsto> (itoa (c + 1), Some dl))"
      "dl = (case deadline_of (view r t k) of Some d \<Rightarrow> if c = 0 then t + ttl * Second else d
             | None \<Rightarrow> t + ttl * Second)"
  | (failed) "res = None" "view r' t = view r t"
proof (cases rule: INCRBY_cases [of r t k 1])
  case (incremented c r1)
  have v1: "view r1 t k = Some (itoa (c + 1), deadline_of (view r t k))"
    using incremented(3) by (simp add: incremented_def)
  have "deadline_of (view r1 t k) = deadline_of (view r t k)" by (simp add: v1 deadline_of_def)
  with TTL [of t k r1] have ttl: "rd_TTL R t k r1 < 0 \<longleftrightarrow> deadline_of (view r t k) = None" by simp
  have ex: "view (rd_EXPIRE R t k ttl r1) t = (view r t)(k \<mapsto> (itoa (c + 1), Some (t + ttl * Second)))"
    using EXPIRE [of t k ttl r1] v1 incremented(3) assms(1) by (simp add: live_at_def)
  have res: "res = Some (c + 1)"
    "r' = (if c = 0 \<or> deadline_of (view r t k) = None then rd_EXPIRE R t k ttl r1 else r1)"
    using assms(2) incremented(2) ttl by (auto simp: clientRateScript_def)
  show thesis
  proof (cases "c = 0 \<or> deadline_of (view r t k) = None")
    case True
    with res ex counted [OF res(1) incremented(1)] show thesis by (auto split: option.splits)
  next
    case False
    with res incremented(3) counted [OF res(1) incremented(1)] show thesis
      by (auto simp: incremented_def split: option.splits)
  qed
next
  case (refused r1)
  with assms(2) failed show thesis by (simp add: clientRateScript_def)
qed

end

section \<open>One call\<close>

lemma lua_admits:
  assumes "counter_of x = Some c" "0 \<le> c" "0 \<le> n" "c + n < 2 ^ 53" "\<bar>limit\<bar> < 2 ^ 53"
  shows "over_limit (map_option lua_num (counter_of x)) (lua_num n) (lua_num limit) =
    Some (0 < limit \<and> limit < c + n)"
  using assms by (simp add: over_limit_def)

lemma not_overflows:
  assumes "counter_of x = Some c" "0 \<le> c" "0 \<le> n" "c + n < 2 ^ 53"
  shows "\<not> overflows x (lua_num n)"
  using assms by (simp add: overflows_def is_int64_def)

lemma Allow_correct:
  assumes "redis_server R view"
    and "counter_of (view r t (rateKey cl now)) = Some cr" "0 \<le> cr" "cr + n < 2 ^ 53"
    and "counter_of (view r t (dayKey cl now)) = Some cd" "0 \<le> cd" "cd + n < 2 ^ 53"
    and "0 \<le> n" "\<bar>q_RPS lm\<bar> < 2 ^ 53" "\<bar>q_DailyEvents lm\<bar> < 2 ^ 53"
  shows "case Allow R (Answered t) cl lm n now r of (res, r') \<Rightarrow>
    if 0 < q_RPS lm \<and> q_RPS lm < cr + n then
      res = Inr \<lparr>d_Allowed = False, d_RetryAfter = Second, d_Reason = ''rate_limit''\<rparr> \<and> r' = r
    else if 0 < q_DailyEvents lm \<and> q_DailyEvents lm < cd + n then
      res = Inr \<lparr>d_Allowed = False, d_RetryAfter = untilNextUTCDay now, d_Reason = ''daily_quota''\<rparr> \<and> r' = r
    else res = Inr \<lparr>d_Allowed = True, d_RetryAfter = 0, d_Reason = ''''\<rparr> \<and>
      view r' t = (view r t)(rateKey cl now \<mapsto> (itoa (cr + n), Some (t + 2 * Second)),
                             dayKey cl now \<mapsto> (itoa (cd + n), Some (t + 48 * Hour)))"
proof -
  obtain res r' where run: "allowScript R t (rateKey cl now) (dayKey cl now) n (q_RPS lm)
      (q_DailyEvents lm) 2 172800 r = (res, r')"
    by (metis surj_pair)
  note rate = lua_admits [OF assms(2,3) assms(8) assms(4,9)]
    and day = lua_admits [OF assms(5,6) assms(8) assms(7,10)]
    and fits = not_overflows [OF assms(2,3) assms(8) assms(4)] not_overflows [OF assms(5,6) assms(8) assms(7)]
  have n: "lua_num n = n" using assms(3,4,8) by simp
  show ?thesis
    using assms(2,5) fits rate day run
    by (cases rule: redis_server.allowScript_cases [OF assms(1) _ _ rateKey_dayKey run])
      (simp_all add: Allow_def run_script_def whole_seconds_def admits_def charged_def n)
qed

text \<open>
  C16. One call of \<open>Allow\<close>, on every branch: it admits the batch exactly when neither the install's
  rate for this second nor the tenant's budget for this day would be exceeded (a limit that is not
  positive is no limit), the rate being looked at first; an admitted batch is added in full to both
  counters, which then live 2 seconds and 48 hours, and to no other key; a denied batch changes
  nothing at all and is told to wait a second or until the next UTC day.
\<close>

theorem Allow_all_or_nothing:
  assumes "redis_server R view"
    and "counter_of (view r t (rateKey cl now)) = Some cr" "0 \<le> cr" "cr + n < 2 ^ 53"
    and "counter_of (view r t (dayKey cl now)) = Some cd" "0 \<le> cd" "cd + n < 2 ^ 53"
    and "0 \<le> n" "\<bar>q_RPS lm\<bar> < 2 ^ 53" "\<bar>q_DailyEvents lm\<bar> < 2 ^ 53"
  shows "case Allow R (Answered t) cl lm n now r of (res, r') \<Rightarrow>
    if 0 < q_RPS lm \<and> q_RPS lm < cr + n then
      res = Inr \<lparr>d_Allowed = False, d_RetryAfter = Second, d_Reason = ''rate_limit''\<rparr> \<and> r' = r
    else if 0 < q_DailyEvents lm \<and> q_DailyEvents lm < cd + n then
      res = Inr \<lparr>d_Allowed = False, d_RetryAfter = untilNextUTCDay now, d_Reason = ''daily_quota''\<rparr> \<and> r' = r
    else res = Inr \<lparr>d_Allowed = True, d_RetryAfter = 0, d_Reason = ''''\<rparr> \<and>
      view r' t = (view r t)(rateKey cl now \<mapsto> (itoa (cr + n), Some (t + 2 * Second)),
                             dayKey cl now \<mapsto> (itoa (cd + n), Some (t + 48 * Hour)))"
  using assms by (rule Allow_correct)

definition quota_claims :: Claims where
  "quota_claims = \<lparr>c_TenantID = ''t1'', c_InstallID = ''ins_1'', c_Scope = ''write:events'', c_TrustTier = 0\<rparr>"

lemma Allow_fresh_keyspace:
  assumes "0 \<le> n" "n < 2 ^ 53" "\<bar>q_RPS lm\<bar> < 2 ^ 53" "\<bar>q_DailyEvents lm\<bar> < 2 ^ 53"
    "q_RPS lm \<le> 0 \<or> n \<le> q_RPS lm" "q_DailyEvents lm \<le> 0 \<or> n \<le> q_DailyEvents lm"
  shows "\<exists>r'. Allow mem_redis (Answered t) cl lm n now Map.empty =
    (Inr \<lparr>d_Allowed = True, d_RetryAfter = 0, d_Reason = ''''\<rparr>, r')"
proof -
  have "counter_of (mem_view Map.empty t k) = Some 0" for k
    by (simp add: mem_view_def live_at_def counter_of_def)
  with Allow_correct [OF mem.redis_server_axioms, of Map.empty t cl now 0 n 0 lm] assms show ?thesis
    by (cases "Allow mem_redis (Answered t) cl lm n now Map.empty") (auto split: if_splits)
qed

theorem Allow_all_or_nothing_witness:
  "case Allow mem_redis (Answered 0) quota_claims DefaultQuota 60 0 Map.empty of (res, r') \<Rightarrow>
     res = Inr \<lparr>d_Allowed = False, d_RetryAfter = Second, d_Reason = ''rate_limit''\<rparr> \<and> r' = Map.empty"
  using Allow_all_or_nothing [OF mem.redis_server_axioms, of Map.empty 0 quota_claims 0 0 60 0 DefaultQuota]
  by (simp add: mem_view_def live_at_def counter_of_def DefaultQuota_def)

text \<open>
  The \<open>Retry-After\<close> of an exhausted day is honest: the wait is positive and at most a day, it ends
  exactly where the next UTC day begins, and the whole seconds the handler sends (rounded down,
  plus one) end within that next day, where the tenant's day counter is another one.
\<close>

lemma untilNextUTCDay_reaches_next_day:
  "let d = untilNextUTCDay now; later = now + (whole_seconds d + 1) * Second
   in 0 < d \<and> d \<le> 24 * Hour \<and> now + d = (now div Day24h + 1) * Day24h
    \<and> utc_day later = utc_day now + 1 \<and> dayKey cl later \<noteq> dayKey cl now"
proof -
  have d: "untilNextUTCDay now = (now div Day24h + 1) * Day24h - now"
  proof -
    have "(now div Day24h + 1) * Day24h - now = Day24h - now mod Day24h"
      by (simp add: minus_div_mult_eq_mod [symmetric] algebra_simps)
    moreover have "0 \<le> now mod Day24h" "now mod Day24h < Day24h" by simp_all
    ultimately show ?thesis
      by (simp add: untilNextUTCDay_def time_Sub_def Truncate_day sat64_id algebra_simps)
  qed
  have later: "(now + (whole_seconds (untilNextUTCDay now) + 1) * Second) div Day24h = now div Day24h + 1"
    unfolding d whole_seconds_def by (simp; linarith)
  have "0 < untilNextUTCDay now" "untilNextUTCDay now \<le> 24 * Hour"
    "now + untilNextUTCDay now = (now div Day24h + 1) * Day24h"
    unfolding d using div_mult_mod_eq [of now Day24h] pos_mod_sign [of Day24h now] pos_mod_bound [of Day24h now]
    by (simp_all add: algebra_simps)
  moreover have "dayKey cl t \<noteq> dayKey cl now" if "t div Day24h = now div Day24h + 1" for t
    using that by (simp add: dayKey_def format_date_inject)
  ultimately show ?thesis
    unfolding Let_def utc_day_def using later by (simp only: simp_thms)
qed

section \<open>The client ceiling\<close>

text \<open>Repeated calls, at the given server times.\<close>

fun client_calls :: "'r redis \<Rightarrow> string \<Rightarrow> int \<Rightarrow> duration \<Rightarrow> gotime list \<Rightarrow> 'r \<Rightarrow> (quota_error + bool) list \<times> 'r" where
  "client_calls R k limit window [] r = ([], r)"
| "client_calls R k limit window (t # ts) r =
     (case AllowClient R (Answered t) k limit window r of (a, r') \<Rightarrow>
       (case client_calls R k limit window ts r' of (as, r'') \<Rightarrow> (a # as, r'')))"

context redis_server
begin

lemma AllowClient_counts:
  assumes "counter_of (view r t k) = Some c" "0 \<le> c" "c < 2 ^ 62" "0 < whole_seconds window"
  obtains r' dl where "AllowClient R (Answered t) k limit window r = (Inr (c + 1 \<le> limit), r')"
    "view r' t = (view r t)(k \<mapsto> (itoa (c + 1), Some dl))"
    "c = 0 \<Longrightarrow> dl = t + whole_seconds window * Second"
    "c \<noteq> 0 \<Longrightarrow> deadline_of (view r t k) = Some d \<Longrightarrow> dl = d"
proof -
  obtain res r' where run: "clientRateScript R t k (whole_seconds window) r = (res, r')" by fastforce
  have "\<not> overflows (view r t k) 1" using assms(1-3) by (simp add: overflows_def is_int64_def)
  then have "rd_INCRBY R t k 1 r = (Some (c + 1), snd (rd_INCRBY R t k 1 r))"
    using assms(1) by (cases rule: INCRBY_cases [of r t k 1]) auto
  then have "res \<noteq> None" using run by (auto simp: clientRateScript_def split: prod.splits option.splits)
  then show thesis
    using run assms(1) that
    by (cases rule: clientRateScript_cases [OF assms(4) run])
      (auto simp: AllowClient_def run_script_def split: option.splits)
qed

lemma AllowClient_answers:
  assumes "counter_of (view r t k) = Some c" "0 \<le> c" "c < 2 ^ 62" "0 < whole_seconds window"
  shows "\<exists>r'. AllowClient R (Answered t) k limit window r = (Inr (c + 1 \<le> limit), r')"
  using AllowClient_counts [OF assms] by metis

text \<open>While a counter that was armed at \<open>t0\<close> lives, the calls count on from it.\<close>

lemma client_calls_count_on:
  "view r t k = Some (itoa c, Some dl) \<Longrightarrow> 0 < c \<Longrightarrow> c + length ts < 2 ^ 62 \<Longrightarrow> 0 < whole_seconds window \<Longrightarrow>
   sorted (t # ts) \<Longrightarrow> \<forall>u \<in> set ts. u < dl \<Longrightarrow>
   fst (client_calls R k limit window ts r) = map (\<lambda>i. Inr (c + int i + 1 \<le> limit)) [0..<length ts]"
proof (induction ts arbitrary: r t c)
  case (Cons u ts)
  have v: "view r u k = Some (itoa c, Some dl)"
    using passes [of t u r k] Cons.prems by (simp add: live_at_def)
  obtain r' dl' where step: "AllowClient R (Answered u) k limit window r = (Inr (c + 1 \<le> limit), r')"
    "view r' u = (view r u)(k \<mapsto> (itoa (c + 1), Some dl'))" "dl' = dl"
    using AllowClient_counts [of r u k c window limit dl] v Cons.prems
    by (auto simp: counter_of_def deadline_of_def)
  have "fst (client_calls R k limit window ts r') =
      map (\<lambda>i. Inr (c + 1 + int i + 1 \<le> limit)) [0..<length ts]"
    using Cons.IH [of r' u "c + 1"] step Cons.prems by simp
  then show ?case
    by (simp add: step(1) case_prod_unfold map_upt_Suc algebra_simps del: upt_Suc)
qed simp

lemma client_calls_first:
  assumes "view r t k = None" "int (length ts) < 2 ^ 61" "0 < whole_seconds window" "sorted (t # ts)"
    "\<forall>u \<in> set ts. u < t + whole_seconds window * Second"
  shows "fst (client_calls R k limit window (t # ts) r) =
    map (\<lambda>i. Inr (int i < limit)) [0..<Suc (length ts)]"
proof -
  obtain r' where step: "AllowClient R (Answered t) k limit window r = (Inr (0 + 1 \<le> limit), r')"
    "view r' t = (view r t)(k \<mapsto> (itoa (0 + 1), Some (t + whole_seconds window * Second)))"
    using AllowClient_counts [of r t k 0 window limit] assms(1,3) by (auto simp: counter_of_def)
  have "fst (client_calls R k limit window ts r') = map (\<lambda>i. Inr (1 + int i + 1 \<le> limit)) [0..<length ts]"
    using client_calls_count_on [of r' t k 1 _ ts] step assms by simp
  then show ?thesis
    by (auto simp: step(1) case_prod_unfold map_upt_Suc simp del: upt_Suc)
qed

end

text \<open>
  C29. The ceiling of \<open>AllowClient\<close>: of the calls for one key within the window that its first call
  opens, exactly the first \<open>limit\<close> are allowed, however many there are and however they are spread.
\<close>

theorem AllowClient_ceiling:
  assumes "redis_server R view" "view r t k = None" "sorted (t # ts)" "0 < whole_seconds window"
    and "\<forall>u \<in> set ts. u < t + whole_seconds window * Second" "int (length ts) < 2 ^ 61"
  shows "fst (client_calls R k limit window (t # ts) r) =
    map (\<lambda>i. Inr (int i < limit)) [0..<Suc (length ts)]"
  using redis_server.client_calls_first assms by metis

theorem AllowClient_ceiling_witness:
  "fst (client_calls mem_redis ''rl:token:c1'' 2 Minute [0, 5, 59 * Second] Map.empty) =
    [Inr True, Inr True, Inr False]"
  using AllowClient_ceiling [OF mem.redis_server_axioms, of Map.empty 0 "''rl:token:c1''" "[5, 59 * Second]" Minute 2]
  by (simp add: mem_view_def live_at_def whole_seconds_def upt_rec)

text \<open>
  No counter outlives its window for ever: whatever the key held before, a text without a
  deadline included, after a round trip in which the script ran the key has a deadline, or the
  script failed without touching it.
\<close>

lemma AllowClient_always_expires:
  assumes "redis_server R view" "0 < whole_seconds window" "net = Answered t \<or> net = Lost t"
    and "AllowClient R net k limit window r = (res, r')"
  shows "deadline_of (view r' t k) \<noteq> None \<or> view r' t = view r t \<and> res = Inl ClientRateCheck"
proof -
  obtain c r'' where run: "clientRateScript R t k (whole_seconds window) r = (c, r'')" by fastforce
  then have "r'' = r'" "c = None \<Longrightarrow> res = Inl ClientRateCheck"
    using assms(3,4) by (auto simp: AllowClient_def run_script_def split: option.splits)
  then show ?thesis
    by (cases rule: redis_server.clientRateScript_cases [OF assms(1,2) run]) (auto simp: deadline_of_def)
qed

end
