(* ===== verification/Batch_Handler.thy ===== *)
theory Batch_Handler
  imports Http_Io Offset_Store Control_Plane Quota_Checker
begin

text \<open>
  \<open>services/ingest/internal/handler/batch.go\<close>: the whole of \<open>POST /v1/batch\<close>. \<open>Deps\<close> holds what the handler
  is wired with, plus what becomes of each round trip and the clock of the database when it runs the offset statement of a session; \<open>world\<close> is the state one request can change:
  the verifier's key cache, the Redis keyspace, the offset store, the \<open>events\<close> table and what the
  two optional callbacks have counted. \<open>protojson\<close> and \<open>gzip\<close> are parameters.
\<close>

section \<open>Wiring and state\<close>

record ('r, 'o) Deps =
  dp_Verifier :: jwx
  dp_Legacy :: LegacyResolver
  dp_Offsets :: "gotime \<Rightarrow> SessionKey \<Rightarrow> int64 \<Rightarrow> 'o \<Rightarrow> int64 \<times> 'o"
  dp_OffsetNet :: "SessionKey \<Rightarrow> pg_outcome"
  dp_PgNow :: "SessionKey \<Rightarrow> gotime"
  dp_Quota :: "'r redis"
  dp_QuotaNet :: transport
  dp_LimitsFor :: "string \<Rightarrow> uint8 \<Rightarrow> Quota option"
  dp_Insert :: ch_conn
  dp_OnClockSkew :: bool
  dp_OnLegacyUse :: bool
  dp_gzip :: gzip_NewReader
  dp_uuid_Parse :: "string \<Rightarrow> string option"
  dp_Unmarshal :: "string \<Rightarrow> BatchRequest option"
  dp_Marshal :: "BatchResponse \<Rightarrow> string option"

record ('r, 'o) world =
  w_verifier :: Verifier
  w_redis :: 'r
  w_offsets :: 'o
  w_events :: "Row list"
  w_skew :: "(string \<times> string) list"
  w_legacy :: "(string \<times> string) list"

section \<open>The loops\<close>

text \<open>The validation loop: the rejects and the valid events, both in order.\<close>

fun split_events :: "(string \<Rightarrow> string option) \<Rightarrow> Event list \<Rightarrow> Reject list \<times> Event list" where
  "split_events u [] = ([], [])"
| "split_events u (e # es) = (case split_events u es of (rejected, valid) \<Rightarrow>
     (case validate_Event u e of
        Some rej \<Rightarrow> (rej # rejected, valid)
      | None \<Rightarrow> (rejected, e # valid)))"

definition session_key :: "Claims \<Rightarrow> Event \<Rightarrow> SessionKey" where
  "session_key c e = \<lparr>sk_TenantID = c_TenantID c, sk_DeviceID = e_DeviceId e, sk_SessionID = e_SessionId e\<rparr>"

record 'o loop_state =
  ls_memo :: "SessionKey \<Rightarrow> int64 option"
  ls_offsets :: 'o
  ls_skew :: "(string \<times> string) list"
  ls_rows :: "Row list"
  ls_accepted :: "string list"

definition get_offset :: "('r, 'o) Deps \<Rightarrow> SessionKey \<Rightarrow> int64 \<Rightarrow> 'o loop_state \<Rightarrow> int64 option \<times> 'o loop_state" where
  "get_offset D k candidate st = (case ls_memo st k of
      Some off \<Rightarrow> (Some off, st)
    | None \<Rightarrow> (case dp_Offsets D (dp_PgNow D k) k candidate (ls_offsets st) of (off, o') \<Rightarrow>
        (case dp_OffsetNet D k of
           Executed \<Rightarrow> (Some off, st\<lparr>ls_offsets := o', ls_memo := (ls_memo st)(k \<mapsto> off)\<rparr>)
         | ReplyLost \<Rightarrow> (None, st\<lparr>ls_offsets := o'\<rparr>)
         | NotExecuted \<Rightarrow> (None, st))))"

definition add_row :: "('r, 'o) Deps \<Rightarrow> Claims \<Rightarrow> gotime \<Rightarrow> Event \<Rightarrow> int64 \<Rightarrow> 'o loop_state \<Rightarrow> 'o loop_state" where
  "add_row D c receivedAt e offset st = (case enrich_Row e c offset receivedAt of (row, clamped) \<Rightarrow>
     st\<lparr>ls_skew := (if clamped \<and> dp_OnClockSkew D then ls_skew st @ [(c_TenantID c, e_DeviceId e)] else ls_skew st),
        ls_rows := ls_rows st @ [row], ls_accepted := ls_accepted st @ [e_EventId e]\<rparr>)"

text \<open>The row loop; \<open>False\<close> means the offset store was unavailable and the handler has answered.\<close>

fun build_rows :: "('r, 'o) Deps \<Rightarrow> Claims \<Rightarrow> int64 \<Rightarrow> gotime \<Rightarrow> Event list \<Rightarrow> 'o loop_state \<Rightarrow> bool \<times> 'o loop_state" where
  "build_rows D c sentAt receivedAt [] st = (True, st)"
| "build_rows D c sentAt receivedAt (e # es) st =
     (case get_offset D (session_key c e) (CandidateOffset sentAt receivedAt) st of
        (None, st') \<Rightarrow> (False, st')
      | (Some offset, st') \<Rightarrow> build_rows D c sentAt receivedAt es (add_row D c receivedAt e offset st'))"

section \<open>The handler\<close>

definition charge_units :: "Event list \<Rightarrow> int" where
  "charge_units valid = (let n = int (length valid) in if n = 0 then 1 else n)"

text \<open>From the quota decision on: rows, insert, answer.\<close>

definition store_batch :: "('r, 'o) Deps \<Rightarrow> Claims \<Rightarrow> BatchRequest \<Rightarrow> BatchResponse \<Rightarrow> Event list \<Rightarrow> gotime \<Rightarrow>
    ('r, 'o) world \<Rightarrow> response \<times> ('r, 'o) world" where
  "store_batch D claims req resp valid receivedAt w =
     (case build_rows D claims (b_SentAt req) receivedAt valid
        \<lparr>ls_memo = Map.empty, ls_offsets = w_offsets w, ls_skew = w_skew w, ls_rows = [], ls_accepted = []\<rparr> of
        (ok, st) \<Rightarrow>
          (let w1 = w\<lparr>w_offsets := ls_offsets st, w_skew := ls_skew st\<rparr> in
           if \<not> ok then (httpError Map.empty 503 ''offset store unavailable'', w1)
           else case InsertEvents (dp_Insert D) (ls_rows st) (w_events w1) of
             (Some _, table) \<Rightarrow> (httpError Map.empty 503 ''storage unavailable'', w1\<lparr>w_events := table\<rparr>)
           | (None, table) \<Rightarrow>
               (case dp_Marshal D (resp\<lparr>br_Accepted := ls_accepted st\<rparr>) of
                  None \<Rightarrow> (httpError json_header 500 ''encode'', w1\<lparr>w_events := table\<rparr>)
                | Some out \<Rightarrow> (\<lparr>rs_Code = 200, rs_Header = json_header, rs_Body = RawBody out\<rparr>,
                             w1\<lparr>w_events := table\<rparr>))))"

text \<open>Admission: limits, legacy rate, quota.\<close>

definition admit_batch :: "('r, 'o) Deps \<Rightarrow> Claims \<Rightarrow> bool \<Rightarrow> BatchRequest \<Rightarrow> gotime \<Rightarrow>
    ('r, 'o) world \<Rightarrow> response \<times> ('r, 'o) world" where
  "admit_batch D claims isLegacy req receivedAt w =
     (case split_events (dp_uuid_Parse D) (b_Events req) of (rejected, valid) \<Rightarrow>
       (let resp = \<lparr>br_ReceivedAt = UnixMilli receivedAt, br_Accepted = [], br_Rejected = rejected\<rparr> in
        case dp_LimitsFor D (c_TenantID claims) (c_TrustTier claims) of
          None \<Rightarrow> (httpError Map.empty 503 ''limits unavailable'', w)
        | Some lm \<Rightarrow>
            (let lm' = (if isLegacy then lm\<lparr>q_RPS := q_LegacyRPS lm\<rparr> else lm) in
             case Allow (dp_Quota D) (dp_QuotaNet D) claims lm' (charge_units valid) receivedAt (w_redis w) of
               (Inl _, r') \<Rightarrow> (httpError Map.empty 503 ''quota unavailable'', w\<lparr>w_redis := r'\<rparr>)
             | (Inr dec, r') \<Rightarrow>
                 if \<not> d_Allowed dec then
                   (httpError [''Retry-After'' \<mapsto> itoa (whole_seconds (d_RetryAfter dec) + 1)] 429 (d_Reason dec),
                    w\<lparr>w_redis := r'\<rparr>)
                 else store_batch D claims req resp valid receivedAt (w\<lparr>w_redis := r'\<rparr>))))"

definition count_legacy :: "('r, 'o) Deps \<Rightarrow> Claims \<Rightarrow> bool \<Rightarrow> BatchRequest \<Rightarrow> ('r, 'o) world \<Rightarrow> ('r, 'o) world" where
  "count_legacy D claims isLegacy req w =
     (if isLegacy \<and> dp_OnLegacyUse D then
        w\<lparr>w_legacy := w_legacy w @ [(c_TenantID claims,
           case b_Events req of [] \<Rightarrow> [] | e # _ \<Rightarrow> GetSdkVersion (e_Context e))]\<rparr>
      else w)"

definition NewBatch :: "('r, 'o) Deps \<Rightarrow> http_request \<Rightarrow> gotime \<Rightarrow> ('r, 'o) world \<Rightarrow> response \<times> ('r, 'o) world" where
  "NewBatch D rq receivedAt w =
     (case VerifyOrLegacy (dp_Verifier D) (dp_Legacy D) (rq_Authorization rq) receivedAt (w_verifier w) of
        ((auth, isLegacy), v') \<Rightarrow>
          (let w1 = w\<lparr>w_verifier := v'\<rparr> in
           case auth of
             Inl _ \<Rightarrow> (httpError Map.empty 401 ''invalid token'', w1)
           | Inr claims \<Rightarrow>
               (case readBody (dp_gzip D) rq of
                  Inl ErrTooLarge \<Rightarrow> (httpError Map.empty 413 ''batch too large'', w1)
                | Inl ErrUnreadable \<Rightarrow> (httpError Map.empty 400 ''unreadable body'', w1)
                | Inr body \<Rightarrow>
                    (case dp_Unmarshal D body of
                       None \<Rightarrow> (httpError Map.empty 400 ''malformed batch envelope'', w1)
                     | Some req \<Rightarrow>
                         if length (b_Events req) > MaxEventsPerBatch then
                           (httpError Map.empty 413 ''too many events'', w1)
                         else admit_batch D claims isLegacy req receivedAt (count_legacy D claims isLegacy req w1)))))"

section \<open>What the loops compute\<close>

lemma split_events_eq:
  "split_events u es = (map (\<lambda>e. the (validate_Event u e)) (filter (\<lambda>e. validate_Event u e \<noteq> None) es),
     filter (\<lambda>e. validate_Event u e = None) es)"
  by (induction es) (auto split: option.splits)

lemma add_row_fields [simp]:
  "ls_memo (add_row D c t e off st) = ls_memo st"
  "ls_offsets (add_row D c t e off st) = ls_offsets st"
  "ls_rows (add_row D c t e off st) = ls_rows st @ [fst (enrich_Row e c off t)]"
  "ls_accepted (add_row D c t e off st) = ls_accepted st @ [e_EventId e]"
  by (simp_all add: add_row_def split: prod.splits)

lemma get_offset_rows:
  assumes "get_offset D k cand st = (x, st')"
  shows "ls_rows st' = ls_rows st" "ls_accepted st' = ls_accepted st"
  using assms by (auto simp: get_offset_def split: option.splits prod.splits pg_outcome.splits)

lemma build_rows_ok:
  "build_rows D c s t es st = (True, st') \<Longrightarrow>
     \<exists>offs. length offs = length es \<and>
       ls_rows st' = ls_rows st @ map2 (\<lambda>e off. fst (enrich_Row e c off t)) es offs \<and>
       ls_accepted st' = ls_accepted st @ map e_EventId es"
proof (induction es arbitrary: st)
  case (Cons e es)
  obtain off st1 where off: "get_offset D (session_key c e) (CandidateOffset s t) st = (Some off, st1)"
    and rest: "build_rows D c s t es (add_row D c t e off st1) = (True, st')"
    using Cons.prems by (auto split: prod.splits option.splits)
  from Cons.IH [OF rest] get_offset_rows [OF off] obtain offs where
    "length offs = length es" "ls_accepted st' = (ls_accepted st @ [e_EventId e]) @ map e_EventId es"
    "ls_rows st' = (ls_rows st @ [fst (enrich_Row e c off t)]) @ map2 (\<lambda>e off. fst (enrich_Row e c off t)) es offs"
    by auto
  then show ?case by (intro exI [of _ "off # offs"]) simp
qed simp

lemma build_rows_ids:
  assumes "build_rows D c s t es st = (True, st')"
  shows "map r_EventID (ls_rows st') = map r_EventID (ls_rows st) @ map e_EventId es"
    "ls_accepted st' = ls_accepted st @ map e_EventId es"
proof -
  obtain offs where offs: "length offs = length es"
    "ls_rows st' = ls_rows st @ map2 (\<lambda>e off. fst (enrich_Row e c off t)) es offs"
    "ls_accepted st' = ls_accepted st @ map e_EventId es"
    using build_rows_ok [OF assms] by blast
  have "map r_EventID (map2 (\<lambda>e off. fst (enrich_Row e c off t)) es offs) = map e_EventId es"
    using offs(1) by (induction rule: list_induct2) simp_all
  with offs(2,3) show "map r_EventID (ls_rows st') = map r_EventID (ls_rows st) @ map e_EventId es"
    "ls_accepted st' = ls_accepted st @ map e_EventId es" by simp_all
qed

lemma NewBatch_cases:
  assumes "NewBatch D rq t w = (rs, w')"
  obtains (unauthorised) err b v' where
      "VerifyOrLegacy (dp_Verifier D) (dp_Legacy D) (rq_Authorization rq) t (w_verifier w) = ((Inl err, b), v')"
      "rs_Code rs = 401" "w' = w\<lparr>w_verifier := v'\<rparr>"
  | (malformed) c b v' where
      "VerifyOrLegacy (dp_Verifier D) (dp_Legacy D) (rq_Authorization rq) t (w_verifier w) = ((Inr c, b), v')"
      "rs_Code rs \<in> {400, 413}" "w' = w\<lparr>w_verifier := v'\<rparr>"
  | (parsed) c b v' body req where
      "VerifyOrLegacy (dp_Verifier D) (dp_Legacy D) (rq_Authorization rq) t (w_verifier w) = ((Inr c, b), v')"
      "readBody (dp_gzip D) rq = Inr body" "dp_Unmarshal D body = Some req" "length (b_Events req) \<le> 500"
      "admit_batch D c b req t (count_legacy D c b req (w\<lparr>w_verifier := v'\<rparr>)) = (rs, w')"
proof -
  obtain auth b v' where v: "VerifyOrLegacy (dp_Verifier D) (dp_Legacy D) (rq_Authorization rq) t (w_verifier w) =
      ((auth, b), v')" by (metis prod.exhaust)
  show thesis
  proof (cases auth)
    case (Inl err)
    with v assms unauthorised show thesis by (auto simp: NewBatch_def)
  next
    case (Inr c)
    show thesis
    proof (cases "readBody (dp_gzip D) rq")
      case (Inl e)
      with v Inr assms malformed show thesis by (cases e) (auto simp: NewBatch_def)
    next
      case body: (Inr body)
      with v Inr assms malformed parsed show thesis
        by (cases "dp_Unmarshal D body") (auto simp: NewBatch_def MaxEventsPerBatch_def Let_def split: if_splits)
    qed
  qed
qed

lemma count_legacy_fields [simp]:
  "w_events (count_legacy D c b req w) = w_events w" "w_offsets (count_legacy D c b req w) = w_offsets w"
  "w_redis (count_legacy D c b req w) = w_redis w" "w_verifier (count_legacy D c b req w) = w_verifier w"
  "w_skew (count_legacy D c b req w) = w_skew w"
  by (simp_all add: count_legacy_def)

definition valid_events :: "('r, 'o) Deps \<Rightarrow> BatchRequest \<Rightarrow> Event list" where
  "valid_events D req = filter (\<lambda>e. validate_Event (dp_uuid_Parse D) e = None) (b_Events req)"

definition rejects :: "('r, 'o) Deps \<Rightarrow> BatchRequest \<Rightarrow> Reject list" where
  "rejects D req = map (\<lambda>e. the (validate_Event (dp_uuid_Parse D) e))
     (filter (\<lambda>e. validate_Event (dp_uuid_Parse D) e \<noteq> None) (b_Events req))"

definition batch_limits :: "bool \<Rightarrow> Quota \<Rightarrow> Quota" where
  "batch_limits isLegacy lm = (if isLegacy then lm\<lparr>q_RPS := q_LegacyRPS lm\<rparr> else lm)"

lemma admit_batch_cases:
  assumes "admit_batch D c b req t w = (rs, w')"
  obtains (unavailable) "dp_LimitsFor D (c_TenantID c) (c_TrustTier c) = None" "rs_Code rs = 503" "w' = w"
  | (not_admitted) lm res r' where "dp_LimitsFor D (c_TenantID c) (c_TrustTier c) = Some lm"
      "Allow (dp_Quota D) (dp_QuotaNet D) c (batch_limits b lm) (charge_units (valid_events D req)) t (w_redis w) = (res, r')"
      "\<And>dec. res = Inr dec \<Longrightarrow> \<not> d_Allowed dec \<and> rs_Code rs = 429" "\<And>e. res = Inl e \<Longrightarrow> rs_Code rs = 503"
      "w' = w\<lparr>w_redis := r'\<rparr>"
  | (admitted) lm dec r' where "dp_LimitsFor D (c_TenantID c) (c_TrustTier c) = Some lm"
      "Allow (dp_Quota D) (dp_QuotaNet D) c (batch_limits b lm) (charge_units (valid_events D req)) t (w_redis w) = (Inr dec, r')"
      "d_Allowed dec"
      "store_batch D c req \<lparr>br_ReceivedAt = UnixMilli t, br_Accepted = [], br_Rejected = rejects D req\<rparr>
         (valid_events D req) t (w\<lparr>w_redis := r'\<rparr>) = (rs, w')"
proof (cases "dp_LimitsFor D (c_TenantID c) (c_TrustTier c)")
  case None
  with assms unavailable show thesis
    by (auto simp: admit_batch_def split_events_eq Let_def)
next
  case (Some lm)
  obtain res r' where al: "Allow (dp_Quota D) (dp_QuotaNet D) c (batch_limits b lm)
      (charge_units (valid_events D req)) t (w_redis w) = (res, r')" by fastforce
  show thesis
  proof (cases "\<exists>dec. res = Inr dec \<and> d_Allowed dec")
    case True
    with al admitted [OF Some] assms Some show thesis
      by (auto simp: admit_batch_def split_events_eq Let_def batch_limits_def valid_events_def rejects_def)
  next
    case False
    with al not_admitted [OF Some al] assms Some show thesis
      by (cases res) (auto simp: admit_batch_def split_events_eq Let_def batch_limits_def valid_events_def rejects_def)
  qed
qed

lemma store_batch_cases:
  assumes "store_batch D c req resp valid t w = (rs, w')"
  obtains (no_offset) st where
      "build_rows D c (b_SentAt req) t valid \<lparr>ls_memo = Map.empty, ls_offsets = w_offsets w, ls_skew = w_skew w,
         ls_rows = [], ls_accepted = []\<rparr> = (False, st)"
      "rs_Code rs = 503" "w' = w\<lparr>w_offsets := ls_offsets st, w_skew := ls_skew st\<rparr>"
  | (inserted) st err table where
      "build_rows D c (b_SentAt req) t valid \<lparr>ls_memo = Map.empty, ls_offsets = w_offsets w, ls_skew = w_skew w,
         ls_rows = [], ls_accepted = []\<rparr> = (True, st)"
      "InsertEvents (dp_Insert D) (ls_rows st) (w_events w) = (err, table)"
      "w' = w\<lparr>w_offsets := ls_offsets st, w_skew := ls_skew st, w_events := table\<rparr>"
      "rs_Code rs = 200 \<Longrightarrow> err = None \<and> (\<exists>out. dp_Marshal D (resp\<lparr>br_Accepted := ls_accepted st\<rparr>) = Some out \<and>
         rs_Body rs = RawBody out)"
      "rs_Code rs \<in> {200, 500, 503}"
proof -
  obtain ok st where rows: "build_rows D c (b_SentAt req) t valid \<lparr>ls_memo = Map.empty, ls_offsets = w_offsets w,
      ls_skew = w_skew w, ls_rows = [], ls_accepted = []\<rparr> = (ok, st)" by fastforce
  obtain err table where ins: "InsertEvents (dp_Insert D) (ls_rows st) (w_events w) = (err, table)" by fastforce
  show thesis
  proof (cases ok)
    case True
    with rows ins assms inserted show thesis
      by (auto simp: store_batch_def Let_def split: option.splits)
  next
    case False
    with rows assms no_offset show thesis by (auto simp: store_batch_def Let_def)
  qed
qed

lemma admit_batch_code:
  assumes "admit_batch D c b req t w = (rs, w')"
  shows "rs_Code rs \<in> {200, 429, 500, 503}"
  using assms
proof (cases rule: admit_batch_cases)
  case (not_admitted lm res r')
  then show ?thesis by (cases res) auto
next
  case (admitted lm dec r')
  from admitted(4) show ?thesis by (cases rule: store_batch_cases) auto
qed auto

text \<open>The requests that reach the events table, with everything that led there.\<close>

lemma NewBatch_inserts:
  assumes "NewBatch D rq t w = (rs, w')" "w_events w' \<noteq> w_events w \<or> rs_Code rs = 200"
  obtains c b v' body req st err where
    "VerifyOrLegacy (dp_Verifier D) (dp_Legacy D) (rq_Authorization rq) t (w_verifier w) = ((Inr c, b), v')"
    "readBody (dp_gzip D) rq = Inr body" "dp_Unmarshal D body = Some req"
    "build_rows D c (b_SentAt req) t (valid_events D req) \<lparr>ls_memo = Map.empty, ls_offsets = w_offsets w,
       ls_skew = w_skew w, ls_rows = [], ls_accepted = []\<rparr> = (True, st)"
    "InsertEvents (dp_Insert D) (ls_rows st) (w_events w) = (err, w_events w')" "w_offsets w' = ls_offsets st"
    "rs_Code rs = 200 \<Longrightarrow> err = None \<and> (\<exists>out. dp_Marshal D \<lparr>br_ReceivedAt = UnixMilli t,
       br_Accepted = ls_accepted st, br_Rejected = rejects D req\<rparr> = Some out \<and> rs_Body rs = RawBody out)"
  using assms(1)
proof (cases rule: NewBatch_cases)
  case p: (parsed c b v' body req)
  show thesis
    using p(5)
  proof (cases rule: admit_batch_cases)
    case (admitted lm dec r')
    from admitted(4) show thesis
      by (cases rule: store_batch_cases) (use p that assms(2) in auto)
  next
    case (not_admitted lm res r')
    with assms(2) show thesis by (cases res) auto
  qed (use assms(2) in auto)
qed (use assms(2) in auto)

section \<open>Offsets are the store's\<close>

context offset_store
begin

definition memo_ok :: "'s loop_state \<Rightarrow> bool" where
  "memo_ok st \<longleftrightarrow> (\<forall>k v. ls_memo st k = Some v \<longrightarrow> offset_of (ls_offsets st) k = Some v)"

lemma get_offset_store:
  assumes "dp_Offsets D = GetOrSet" "memo_ok st" "get_offset D k cand st = (x, st')"
  shows "memo_ok st'" "offset_of (ls_offsets st) k' = Some v \<Longrightarrow> offset_of (ls_offsets st') k' = Some v"
    "x = Some off \<Longrightarrow> offset_of (ls_offsets st') k = Some off"
proof -
  obtain off' o' where st: "GetOrSet (dp_PgNow D k) k cand (ls_offsets st) = (off', o')" by fastforce
  note keep = stored_stays [of "ls_offsets st" _ _ "dp_PgNow D k" k cand, unfolded st snd_conv]
  show "memo_ok st'" "offset_of (ls_offsets st) k' = Some v \<Longrightarrow> offset_of (ls_offsets st') k' = Some v"
    "x = Some off \<Longrightarrow> offset_of (ls_offsets st') k = Some off"
    using assms st keep returned_is_stored [OF st]
    by (auto simp: get_offset_def memo_ok_def split: option.splits pg_outcome.splits if_splits)
qed

lemma memo_ok_add_row [simp]: "memo_ok (add_row D c t e off st) = memo_ok st"
  by (simp add: memo_ok_def)

lemma build_rows_store:
  "dp_Offsets D = GetOrSet \<Longrightarrow> memo_ok st \<Longrightarrow> build_rows D c s t es st = (ok, st') \<Longrightarrow>
     (\<forall>k v. offset_of (ls_offsets st) k = Some v \<longrightarrow> offset_of (ls_offsets st') k = Some v) \<and>
     (ok \<longrightarrow> (\<forall>e \<in> set es. offset_of (ls_offsets st') (session_key c e) \<noteq> None) \<and>
       ls_rows st' = ls_rows st @
         map (\<lambda>e. fst (enrich_Row e c (the (offset_of (ls_offsets st') (session_key c e))) t)) es)"
proof (induction es arbitrary: st)
  case (Cons e es)
  obtain x st1 where off: "get_offset D (session_key c e) (CandidateOffset s t) st = (x, st1)" by fastforce
  note facts = get_offset_store [OF Cons.prems(1,2) off]
  show ?case
  proof (cases x)
    case None
    with Cons.prems(3) off facts(2) show ?thesis by auto
  next
    case (Some o1)
    have "build_rows D c s t es (add_row D c t e o1 st1) = (ok, st')" using Cons.prems(3) off Some by simp
    from Cons.IH [OF Cons.prems(1) _ this] facts Some get_offset_rows [OF off] show ?thesis by auto
  qed
qed simp

end

section \<open>Properties\<close>

text \<open>
  C1. A 200 is a durability claim that holds: the events table has grown by exactly one row per accepted
  event, in order; the answer's \<open>accepted\<close> list is the ids of those rows, its \<open>rejected\<close> list has a reject
  for each other event of the request, and every event of the request is in exactly one of the two.
\<close>

theorem batch_200_is_durable:
  assumes "waits_for_flush (dp_Insert D)" "NewBatch D rq t w = (rs, w')" "rs_Code rs = 200"
  shows "\<exists>body req rows resp out. readBody (dp_gzip D) rq = Inr body \<and> dp_Unmarshal D body = Some req \<and>
    w_events w' = w_events w @ rows \<and> map r_EventID rows = map e_EventId (valid_events D req) \<and>
    dp_Marshal D resp = Some out \<and> rs_Body rs = RawBody out \<and>
    br_Accepted resp = map r_EventID rows \<and> map rj_EventId (br_Rejected resp) =
      map e_EventId (filter (\<lambda>e. validate_Event (dp_uuid_Parse D) e \<noteq> None) (b_Events req)) \<and>
    length (br_Accepted resp) + length (br_Rejected resp) = length (b_Events req)"
  using assms(2)
proof (rule NewBatch_inserts)
  show "w_events w' \<noteq> w_events w \<or> rs_Code rs = 200" using assms(3) by simp
next
  fix c b v' body req st err
  assume body: "readBody (dp_gzip D) rq = Inr body" "dp_Unmarshal D body = Some req"
    and rows: "build_rows D c (b_SentAt req) t (valid_events D req) \<lparr>ls_memo = Map.empty, ls_offsets = w_offsets w,
       ls_skew = w_skew w, ls_rows = [], ls_accepted = []\<rparr> = (True, st)"
    and ins: "InsertEvents (dp_Insert D) (ls_rows st) (w_events w) = (err, w_events w')"
    and ok: "rs_Code rs = 200 \<Longrightarrow> err = None \<and> (\<exists>out. dp_Marshal D \<lparr>br_ReceivedAt = UnixMilli t,
       br_Accepted = ls_accepted st, br_Rejected = rejects D req\<rparr> = Some out \<and> rs_Body rs = RawBody out)"
  have ids: "map r_EventID (ls_rows st) = map e_EventId (valid_events D req)"
    and acc: "ls_accepted st = map e_EventId (valid_events D req)"
    using build_rows_ids [OF rows] by simp_all
  have rej: "map rj_EventId (rejects D req) =
      map e_EventId (filter (\<lambda>e. validate_Event (dp_uuid_Parse D) e \<noteq> None) (b_Events req))"
    by (auto simp: rejects_def intro: validate_Event_event_id)
  have len: "length (valid_events D req) + length (rejects D req) = length (b_Events req)"
    unfolding valid_events_def rejects_def length_map by (rule sum_length_filter_compl)
  from ok [OF assms(3)] obtain out where out: "err = None" "rs_Body rs = RawBody out"
    "dp_Marshal D \<lparr>br_ReceivedAt = UnixMilli t, br_Accepted = ls_accepted st, br_Rejected = rejects D req\<rparr> = Some out"
    by blast
  with ins InsertEvents_ok [OF assms(1), of "ls_rows st" "w_events w" "w_events w'"]
  have "w_events w' = w_events w @ ls_rows st" by simp
  with body ids rej len out acc show ?thesis
    by (intro exI [of _ body] exI [of _ req] exI [of _ "ls_rows st"] exI [of _ out]
        exI [of _ "\<lparr>br_ReceivedAt = UnixMilli t, br_Accepted = ls_accepted st, br_Rejected = rejects D req\<rparr>"]) simp
qed

definition sample_deps :: "(keyspace, session_offsets) Deps" where
  "sample_deps = \<lparr>dp_Verifier = sample_jwx, dp_Legacy = (\<lambda>_. Some (''t1'', ''dual_accept'')),
     dp_Offsets = Postgres_GetOrSet, dp_OffsetNet = (\<lambda>_. Executed), dp_PgNow = (\<lambda>_. 0), dp_Quota = mem_redis, dp_QuotaNet = Answered 0,
     dp_LimitsFor = (\<lambda>_ _. Some DefaultQuota), dp_Insert = sync_conn, dp_OnClockSkew = False, dp_OnLegacyUse = True,
     dp_gzip = (\<lambda>_. None), dp_uuid_Parse = Some,
     dp_Unmarshal = (\<lambda>_. Some \<lparr>b_SentAt = 0, b_Events = [sample_event]\<rparr>), dp_Marshal = (\<lambda>_. Some ''ok'')\<rparr>"

definition sample_world :: "(keyspace, session_offsets) world" where
  "sample_world = \<lparr>w_verifier = NewVerifier [] [] [], w_redis = Map.empty, w_offsets = Map.empty, w_events = [],
     w_skew = [], w_legacy = []\<rparr>"

definition sample_request :: http_request where
  "sample_request = \<lparr>rq_Authorization = ''bearer wk_live_a'', rq_ContentEncoding = [],
     rq_Body = \<lparr>rd_bytes = ''x'', rd_end = EOF\<rparr>\<rparr>"

lemma sample_batch_valid: "validate_Event Some sample_event = None"
  by (simp add: validate_None_iff valid_event_def sample_event_def)

lemma sample_body: "readBody gz sample_request = Inr ''x''"
  by (simp add: readBody_def sample_request_def MaxBytesReader_def read_capped_def ReadAll_def MaxBatchBytes_def)

lemma sample_auth:
  "VerifyOrLegacy X (\<lambda>_. Some (''t1'', ''dual_accept'')) (rq_Authorization sample_request) t v =
     ((Inr \<lparr>c_TenantID = ''t1'', c_InstallID = legacy_install_id ''wk_live_a'', c_Scope = ScopeWriteEvents,
        c_TrustTier = 1\<rparr>, True), v)"
  by (simp add: VerifyOrLegacy_def sample_request_def stripBearer_legacy_example LegacyPrefix_def HasPrefix_def mode_defs)

definition legacy_claims :: Claims where
  "legacy_claims = \<lparr>c_TenantID = ''t1'', c_InstallID = legacy_install_id ''wk_live_a'', c_Scope = ScopeWriteEvents,
     c_TrustTier = 1\<rparr>"

lemma sample_batch_runs:
  assumes "w_redis w = Map.empty" "Postgres_GetOrSet 0 (session_key legacy_claims sample_event) 0 (w_offsets w) = (off, o')"
  shows "\<exists>rs w'. NewBatch sample_deps sample_request t w = (rs, w') \<and> rs_Code rs = 200 \<and> w_offsets w' = o' \<and>
    w_events w' = w_events w @ [fst (enrich_Row sample_event legacy_claims off t)]"
proof -
  have zero: "CandidateOffset 0 t = 0" by (simp add: CandidateOffset_def)
  obtain r' where "Allow mem_redis (Answered 0) legacy_claims (DefaultQuota\<lparr>q_RPS := q_LegacyRPS DefaultQuota\<rparr>) 1 t Map.empty =
      (Inr \<lparr>d_Allowed = True, d_RetryAfter = 0, d_Reason = ''''\<rparr>, r')"
    using Allow_fresh_keyspace [of 1 "DefaultQuota\<lparr>q_RPS := q_LegacyRPS DefaultQuota\<rparr>" 0 legacy_claims t]
    by (auto simp: DefaultQuota_def)
  with assms show ?thesis
    by (simp add: NewBatch_def sample_deps_def sample_body sample_auth legacy_claims_def [symmetric] admit_batch_def
        sample_batch_valid zero count_legacy_def charge_units_def store_batch_def get_offset_def MaxEventsPerBatch_def
        InsertEvents_def sync_conn_def)
qed

theorem batch_200_is_durable_witness:
  "\<exists>rs w'. NewBatch sample_deps sample_request 0 sample_world = (rs, w') \<and> map r_EventID (w_events w') = [e_EventId sample_event]"
proof -
  obtain rs w' where run: "NewBatch sample_deps sample_request 0 sample_world = (rs, w')" "rs_Code rs = 200"
    using sample_batch_runs [of sample_world _ _ 0] by (auto simp: sample_world_def Postgres_GetOrSet_def)
  have "waits_for_flush (dp_Insert sample_deps)" by (simp add: sample_deps_def sync_conn_waits)
  from batch_200_is_durable [OF this run] run(1) show ?thesis
    by (auto simp: sample_deps_def sample_world_def valid_events_def sample_batch_valid)
qed

text \<open>A server that takes the whole of every batch it is sent.\<close>

definition stores_all :: "ch_conn \<Rightarrow> bool" where
  "stores_all C \<longleftrightarrow> ch_PrepareBatch C \<and> (\<forall>row. ch_Append C row) \<and> (\<forall>rows. ch_Send C rows = (True, rows))"

lemma InsertEvents_up: "stores_all C \<Longrightarrow> InsertEvents C rows table = (None, table @ rows)"
  by (auto simp: InsertEvents_def stores_all_def append_rows_Inr list_all_iff split: sum.splits)
    (metis append_rows_Inr list_all_iff sum.distinct(1))

text \<open>The row loop gets through exactly when the offset store answers for every session of the batch.\<close>

definition memo_answered :: "('r, 'o) Deps \<Rightarrow> 'o loop_state \<Rightarrow> bool" where
  "memo_answered D st \<longleftrightarrow> (\<forall>k. ls_memo st k \<noteq> None \<longrightarrow> dp_OffsetNet D k = Executed)"

lemma get_offset_answers:
  assumes "memo_answered D st" "get_offset D k cand st = (x, st')"
  shows "x \<noteq> None \<longleftrightarrow> dp_OffsetNet D k = Executed" "memo_answered D st'"
  using assms
  by (cases "ls_memo st k"; auto simp: get_offset_def memo_answered_def split: prod.splits pg_outcome.splits if_splits)+

lemma build_rows_succeeds_iff:
  "memo_answered D st \<Longrightarrow> fst (build_rows D c s t es st) \<longleftrightarrow> (\<forall>e \<in> set es. dp_OffsetNet D (session_key c e) = Executed)"
proof (induction es arbitrary: st)
  case (Cons e es)
  obtain x st1 where off: "get_offset D (session_key c e) (CandidateOffset s t) st = (x, st1)" by fastforce
  note ans = get_offset_answers [OF Cons.prems off]
  have "memo_answered D (add_row D c t e off st1)" for off using ans(2) by (simp add: memo_answered_def)
  with Cons.IH off ans(1) show ?case by (cases x) auto
qed simp

text \<open>
  C11. A batch is served whenever the systems behind it are up: with a valid credential, a readable
  body of at most 500 events and a quota decision that admits it, and with the control plane answering,
  the offset store answering for every session of the batch and the event store taking every row, the
  request gets a 200 and every valid event of it is in the events table.
\<close>

theorem healthy_batch_is_accepted:
  assumes "VerifyOrLegacy (dp_Verifier D) (dp_Legacy D) (rq_Authorization rq) t (w_verifier w) = ((Inr c, b), v')"
    and "readBody (dp_gzip D) rq = Inr body" "dp_Unmarshal D body = Some req" "length (b_Events req) \<le> 500"
    and "dp_LimitsFor D (c_TenantID c) (c_TrustTier c) = Some lm"
    and "Allow (dp_Quota D) (dp_QuotaNet D) c (batch_limits b lm) (charge_units (valid_events D req)) t (w_redis w) =
      (Inr dec, r')" "d_Allowed dec"
    and "\<forall>e \<in> set (valid_events D req). dp_OffsetNet D (session_key c e) = Executed" "stores_all (dp_Insert D)"
    and "\<And>resp. dp_Marshal D resp \<noteq> None"
  shows "\<exists>rs w'. NewBatch D rq t w = (rs, w') \<and> rs_Code rs = 200 \<and>
    map r_EventID (w_events w') = map r_EventID (w_events w) @ map e_EventId (valid_events D req)"
proof -
  let ?w = "count_legacy D c b req (w\<lparr>w_verifier := v'\<rparr>)"
  let ?st = "\<lparr>ls_memo = Map.empty, ls_offsets = w_offsets w, ls_skew = w_skew w, ls_rows = [], ls_accepted = []\<rparr>"
  obtain st where rows: "build_rows D c (b_SentAt req) t (valid_events D req) ?st = (True, st)"
    using build_rows_succeeds_iff [of D ?st c "b_SentAt req" t "valid_events D req"] assms(8)
    by (cases "build_rows D c (b_SentAt req) t (valid_events D req) ?st") (auto simp: memo_answered_def)
  obtain out where "dp_Marshal D \<lparr>br_ReceivedAt = UnixMilli t, br_Accepted = ls_accepted st,
      br_Rejected = rejects D req\<rparr> = Some out"
    using assms(10) by blast
  with rows have "\<exists>rs w'. admit_batch D c b req t ?w = (rs, w') \<and> rs_Code rs = 200 \<and> w_events w' = w_events w @ ls_rows st"
    using assms(5-7) InsertEvents_up [OF assms(9)]
    by (auto simp: admit_batch_def split_events_eq Let_def batch_limits_def valid_events_def rejects_def store_batch_def)
  moreover have "NewBatch D rq t w = admit_batch D c b req t ?w"
    using assms(1-4) by (simp add: NewBatch_def MaxEventsPerBatch_def)
  moreover have "map r_EventID (ls_rows st) = map e_EventId (valid_events D req)"
    using build_rows_ids [OF rows] by simp
  ultimately show ?thesis by auto
qed

theorem healthy_batch_is_accepted_witness:
  "\<exists>rs w'. NewBatch sample_deps sample_request 0 sample_world = (rs, w') \<and> rs_Code rs = 200 \<and>
     map r_EventID (w_events w') = [e_EventId sample_event]"
proof -
  let ?req = "\<lparr>b_SentAt = 0, b_Events = [sample_event]\<rparr>"
  obtain r' where "Allow mem_redis (Answered 0) legacy_claims (DefaultQuota\<lparr>q_RPS := q_LegacyRPS DefaultQuota\<rparr>) 1 0 Map.empty =
      (Inr \<lparr>d_Allowed = True, d_RetryAfter = 0, d_Reason = []\<rparr>, r')"
    using Allow_fresh_keyspace [of 1 "DefaultQuota\<lparr>q_RPS := q_LegacyRPS DefaultQuota\<rparr>" 0 legacy_claims 0]
    by (auto simp: DefaultQuota_def)
  with healthy_batch_is_accepted [of sample_deps sample_request 0 sample_world legacy_claims True
      "w_verifier sample_world" "''x''" ?req DefaultQuota "\<lparr>d_Allowed = True, d_RetryAfter = 0, d_Reason = []\<rparr>" r']
  show ?thesis
    by (simp add: sample_deps_def sample_auth legacy_claims_def sample_body batch_limits_def charge_units_def
        valid_events_def sample_batch_valid stores_all_def sync_conn_def sample_world_def)
qed

text \<open>
  A Postgres \<open>TEXT\<close> holds no zero byte: a statement that is given one is refused before it runs.
\<close>

definition refuses_nul :: "('r, 'o) Deps \<Rightarrow> bool" where
  "refuses_nul D \<longleftrightarrow> (\<forall>k. CHR 0x00 \<in> set (sk_TenantID k @ sk_DeviceID k @ sk_SessionID k) \<longrightarrow> dp_OffsetNet D k = NotExecuted)"

text \<open>
  C18. One event can hold up its batch for good: an event whose device or session id contains a zero byte
  passes validation, but the offset store can never answer for its session, so no request that carries
  it ever gets a 200 or stores any row, whenever and however often it is sent, and whatever valid
  events travel with it. The package comment of \<open>validate.go\<close> promises that no event can do this.
\<close>

theorem nul_id_poisons_batch:
  assumes "refuses_nul D" "NewBatch D rq t w = (rs, w')" "readBody (dp_gzip D) rq = Inr body"
    and "dp_Unmarshal D body = Some req" "e \<in> set (b_Events req)" "validate_Event (dp_uuid_Parse D) e = None"
    and "CHR 0x00 \<in> set (e_DeviceId e @ e_SessionId e)"
  shows "rs_Code rs \<in> {401, 413, 429, 503} \<and> w_events w' = w_events w"
  using assms(2)
proof (cases rule: NewBatch_cases)
  case p: (parsed c b v' body' req')
  then have req: "req' = req" using assms(3,4) by simp
  have "e \<in> set (valid_events D req)" using assms(5,6) by (simp add: valid_events_def)
  moreover have "dp_OffsetNet D (session_key c e) = NotExecuted"
    using assms(1,7) by (auto simp: refuses_nul_def session_key_def)
  ultimately have stuck: "\<not> fst (build_rows D c s t (valid_events D req) \<lparr>ls_memo = Map.empty, ls_offsets = os, ls_skew = sk,
      ls_rows = [], ls_accepted = []\<rparr>)" for s os sk
    by (subst build_rows_succeeds_iff) (auto simp: memo_answered_def intro!: bexI [of _ e])
  show ?thesis
    using p(5)
  proof (cases rule: admit_batch_cases)
    case (admitted lm dec r')
    from admitted(4) show ?thesis
      using stuck by (cases rule: store_batch_cases) (auto simp: req dest: arg_cong [where f = fst])
  next
    case (not_admitted lm res r')
    then show ?thesis by (cases res) auto
  qed simp
next
  case (malformed c b v')
  then show ?thesis
    using assms(2-4) by (auto simp: NewBatch_def Let_def split: if_splits dest: admit_batch_code)
qed auto

definition nul_event :: Event where
  "nul_event = sample_event\<lparr>e_DeviceId := [CHR ''d'', CHR 0x00]\<rparr>"

definition nul_deps :: "(keyspace, session_offsets) Deps" where
  "nul_deps = sample_deps\<lparr>dp_OffsetNet := (\<lambda>k. if CHR 0x00 \<in> set (sk_TenantID k @ sk_DeviceID k @ sk_SessionID k) then NotExecuted else Executed),
     dp_Unmarshal := (\<lambda>_. Some \<lparr>b_SentAt = 0, b_Events = [sample_event, nul_event]\<rparr>)\<rparr>"

theorem nul_id_poisons_batch_witness:
  "\<exists>rs w'. NewBatch nul_deps sample_request 0 sample_world = (rs, w') \<and> rs_Code rs \<in> {401, 413, 429, 503} \<and> w_events w' = []"
proof -
  obtain rs w' where run: "NewBatch nul_deps sample_request 0 sample_world = (rs, w')" by fastforce
  have "rs_Code rs \<in> {401, 413, 429, 503} \<and> w_events w' = w_events sample_world"
  proof (rule nul_id_poisons_batch [OF _ run])
    show "refuses_nul nul_deps" by (simp add: refuses_nul_def nul_deps_def)
    show "readBody (dp_gzip nul_deps) sample_request = Inr ''x''" by (rule sample_body)
    show "validate_Event (dp_uuid_Parse nul_deps) nul_event = None"
      by (simp add: nul_deps_def sample_deps_def nul_event_def validate_None_iff valid_event_def sample_event_def)
    show "nul_event \<in> set (b_Events \<lparr>b_SentAt = 0, b_Events = [sample_event, nul_event]\<rparr>)" by simp
    show "dp_Unmarshal nul_deps ''x'' = Some \<lparr>b_SentAt = 0, b_Events = [sample_event, nul_event]\<rparr>"
      by (simp add: nul_deps_def)
    show "CHR 0x00 \<in> set (e_DeviceId nul_event @ e_SessionId nul_event)" by (simp add: nul_event_def)
  qed
  with run show ?thesis by (auto simp: sample_world_def)
qed

text \<open>A server stores nothing it was not sent.\<close>

definition stores_only_sent :: "ch_conn \<Rightarrow> bool" where
  "stores_only_sent C \<longleftrightarrow> (\<forall>rows ok flushed. ch_Send C rows = (ok, flushed) \<longrightarrow> set flushed \<subseteq> set rows)"

lemma InsertEvents_only_sent:
  assumes "stores_only_sent C" "InsertEvents C rows table = (err, table')"
  shows "\<exists>added. table' = table @ added \<and> set added \<subseteq> set rows"
  using assms
  by (auto simp: InsertEvents_def stores_only_sent_def append_rows_Inr split: if_splits sum.splits prod.splits)

text \<open>
  C2. Tenant isolation on the write path: every row a batch request adds to the events table, also when
  the insert failed half way, carries the tenant, the install id and the trust tier of the credential
  that was verified for this very request, and the server's time of receipt. Nothing in the body can
  change them, and a request without a valid credential adds no row.
\<close>

theorem batch_rows_carry_verified_identity:
  assumes "stores_only_sent (dp_Insert D)" "NewBatch D rq t w = (rs, w')"
  shows "\<exists>added. w_events w' = w_events w @ added \<and> (\<forall>row \<in> set added. \<exists>c b v'.
    VerifyOrLegacy (dp_Verifier D) (dp_Legacy D) (rq_Authorization rq) t (w_verifier w) = ((Inr c, b), v') \<and>
    r_TenantID row = c_TenantID c \<and> r_InstallID row = c_InstallID c \<and> r_TrustTier row = c_TrustTier c \<and>
    r_TSReceived row = t)"
proof (cases "w_events w' = w_events w")
  case False
  with assms(2) show ?thesis
  proof (rule NewBatch_inserts [OF _ disjI1])
    fix c b v' body req st err
    assume auth: "VerifyOrLegacy (dp_Verifier D) (dp_Legacy D) (rq_Authorization rq) t (w_verifier w) = ((Inr c, b), v')"
      and rows: "build_rows D c (b_SentAt req) t (valid_events D req) \<lparr>ls_memo = Map.empty, ls_offsets = w_offsets w,
         ls_skew = w_skew w, ls_rows = [], ls_accepted = []\<rparr> = (True, st)"
      and ins: "InsertEvents (dp_Insert D) (ls_rows st) (w_events w) = (err, w_events w')"
    have "\<forall>row \<in> set (ls_rows st). r_TenantID row = c_TenantID c \<and> r_InstallID row = c_InstallID c \<and>
        r_TrustTier row = c_TrustTier c \<and> r_TSReceived row = t"
      using build_rows_ok [OF rows] by (auto simp: set_zip)
    with InsertEvents_only_sent [OF assms(1) ins] auth show ?thesis by blast
  qed
qed auto

theorem batch_rows_carry_verified_identity_witness:
  "\<exists>rs w' added. NewBatch sample_deps sample_request 0 sample_world = (rs, w') \<and> w_events w' = added \<and>
     (\<forall>row \<in> set added. r_TenantID row = ''t1'')"
proof -
  obtain rs w' where run: "NewBatch sample_deps sample_request 0 sample_world = (rs, w')" by fastforce
  have "stores_only_sent (dp_Insert sample_deps)" by (simp add: sample_deps_def stores_only_sent_def sync_conn_def)
  from batch_rows_carry_verified_identity [OF this run] have "\<forall>row \<in> set (w_events w'). r_TenantID row = ''t1''"
    by (auto simp: sample_world_def sample_deps_def sample_auth)
  with run show ?thesis by blast
qed

text \<open>
  C23. A refused batch leaves no trace: after a 400, 401 or 413 nothing has changed but, possibly, the
  verifier's key cache (no budget spent, no offset pinned, no row written, no callback run); after a
  429 no offset is pinned and no row written. The status is always one of the seven the contract names.
\<close>

theorem batch_refusal_leaves_no_trace:
  assumes "NewBatch D rq t w = (rs, w')"
  shows "rs_Code rs \<in> {200, 400, 401, 413, 429, 500, 503} \<and>
    (rs_Code rs \<in> {400, 401, 413} \<longrightarrow> w' = w\<lparr>w_verifier := w_verifier w'\<rparr>) \<and>
    (rs_Code rs = 429 \<longrightarrow> w_events w' = w_events w \<and> w_offsets w' = w_offsets w \<and> w_skew w' = w_skew w)"
  using assms
proof (cases rule: NewBatch_cases)
  case p: (parsed c b v' body req)
  show ?thesis
    using p(5)
  proof (cases rule: admit_batch_cases)
    case (admitted lm dec r')
    from admitted(4) show ?thesis by (cases rule: store_batch_cases) auto
  next
    case (not_admitted lm res r')
    then show ?thesis by (cases res) auto
  qed auto
qed auto

theorem batch_refusal_leaves_no_trace_witness:
  "\<exists>rs w'. NewBatch (sample_deps\<lparr>dp_Unmarshal := (\<lambda>_. None)\<rparr>) sample_request 0 sample_world = (rs, w') \<and>
     rs_Code rs = 400 \<and> w' = sample_world"
proof -
  obtain rs w' where run: "NewBatch (sample_deps\<lparr>dp_Unmarshal := (\<lambda>_. None)\<rparr>) sample_request 0 sample_world = (rs, w')"
    by fastforce
  have "rs_Code rs = 400" "w_verifier w' = w_verifier sample_world"
    using run by (auto simp: NewBatch_def sample_deps_def sample_auth sample_body)
  with batch_refusal_leaves_no_trace [OF run] run show ?thesis by simp
qed

context offset_store
begin

lemma batch_rows_at_store_offsets:
  assumes "dp_Offsets D = GetOrSet" "waits_for_flush (dp_Insert D)" "NewBatch D rq t w = (rs, w')" "rs_Code rs = 200"
    "row \<in> set (drop (length (w_events w)) (w_events w'))"
  obtains e c off where "row = fst (enrich_Row e c off t)" "offset_of (w_offsets w') (session_key c e) = Some off"
  using assms(3)
proof (rule NewBatch_inserts)
  show "w_events w' \<noteq> w_events w \<or> rs_Code rs = 200" using assms(4) by simp
next
  fix c b v' body req st err
  assume rows: "build_rows D c (b_SentAt req) t (valid_events D req) \<lparr>ls_memo = Map.empty, ls_offsets = w_offsets w,
       ls_skew = w_skew w, ls_rows = [], ls_accepted = []\<rparr> = (True, st)"
    and ins: "InsertEvents (dp_Insert D) (ls_rows st) (w_events w) = (err, w_events w')"
    and store: "w_offsets w' = ls_offsets st"
    and ok: "rs_Code rs = 200 \<Longrightarrow> err = None \<and> (\<exists>out. dp_Marshal D \<lparr>br_ReceivedAt = UnixMilli t,
       br_Accepted = ls_accepted st, br_Rejected = rejects D req\<rparr> = Some out \<and> rs_Body rs = RawBody out)"
  have "w_events w' = w_events w @ ls_rows st" using InsertEvents_ok [OF assms(2)] ins ok [OF assms(4)] by simp
  with build_rows_store [OF assms(1) _ rows] assms(5) store that show thesis by (auto simp: memo_ok_def)
qed

end

context offset_store
begin

lemma NewBatch_keeps_offsets:
  assumes "dp_Offsets D = GetOrSet" "NewBatch D rq t w = (rs, w')" "offset_of (w_offsets w) k = Some v"
  shows "offset_of (w_offsets w') k = Some v"
  using assms(2)
proof (cases rule: NewBatch_cases)
  case p: (parsed c b v' body req)
  show ?thesis
    using p(5)
  proof (cases rule: admit_batch_cases)
    case (admitted lm dec r')
    have fresh: "memo_ok \<lparr>ls_memo = Map.empty, ls_offsets = w_offsets w, ls_skew = w_skew w, ls_rows = [], ls_accepted = []\<rparr>"
      by (simp add: memo_ok_def)
    from admitted(4) show ?thesis
    proof (cases rule: store_batch_cases)
      case (no_offset st)
      with build_rows_store [OF assms(1) fresh] assms(3) show ?thesis by simp
    next
      case (inserted st err table)
      with build_rows_store [OF assms(1) fresh] assms(3) show ?thesis by simp
    qed
  qed (use assms(3) in auto)
qed (use assms(3) in auto)

end

lemma enrich_Row_TSClient: "r_TSClient (fst (enrich_Row e c off t)) = time_UnixMilli (e_TsClient e)"
  by (simp add: enrich_Row_def split: prod.splits)

lemma time_UnixMilli_inject: "time_UnixMilli a = time_UnixMilli b \<longleftrightarrow> a = b"
  by (auto simp: time_UnixMilli_def intro: signed_word_eqI)

definition same_delivery :: "Row \<Rightarrow> Row \<Rightarrow> bool" where
  "same_delivery row row' \<longleftrightarrow> r_TenantID row = r_TenantID row' \<and> r_EventID row = r_EventID row' \<and>
     r_Name row = r_Name row' \<and> r_DeviceID row = r_DeviceID row' \<and> r_SessionID row = r_SessionID row' \<and>
     r_TSClient row = r_TSClient row'"

lemma same_offset_same_sort_key:
  assumes "row = fst (enrich_Row e c off t)" "row' = fst (enrich_Row e' c' off t')" "same_delivery row row'"
    "r_TS row \<noteq> r_TSReceived row" "r_TS row' \<noteq> r_TSReceived row'"
  shows "sort_key_of row = sort_key_of row'"
proof -
  have "e_TsClient e = e_TsClient e'"
    using assms(1-3) by (simp add: same_delivery_def enrich_Row_TSClient time_UnixMilli_inject)
  then have "r_TS row = r_TS row'"
    using assms(1,2,4,5) by (simp add: Correct_eq Let_def split: if_splits)
  then show ?thesis using assms(3) by (simp add: sort_key_of_def same_delivery_def)
qed

text \<open>
  Redelivery is idempotent end to end: when an event is accepted twice, by any pods, at any times, in
  any batches and with any other traffic on the offset store in between, the two stored rows have the
  same sort key, so the storage engine collapses them, unless one of them was stored at its time of
  receipt because its clock was out of range.
\<close>

lemma redelivery_collapses:
  assumes "NewBatch D rq t w = (rs, w')" "rs_Code rs = 200" "dp_Offsets D = Postgres_GetOrSet"
    and "waits_for_flush (dp_Insert D)" "row \<in> set (drop (length (w_events w)) (w_events w'))"
    and "w_offsets u = snd (get_all Postgres_GetOrSet calls (w_offsets w'))"
    and "NewBatch E rq2 t2 u = (rs2, u')" "rs_Code rs2 = 200" "dp_Offsets E = Postgres_GetOrSet"
    and "waits_for_flush (dp_Insert E)" "row2 \<in> set (drop (length (w_events u)) (w_events u'))"
    and "same_delivery row row2" "r_TS row \<noteq> r_TSReceived row" "r_TS row2 \<noteq> r_TSReceived row2"
  shows "sort_key_of row = sort_key_of row2"
proof -
  obtain e c off where 1: "row = fst (enrich_Row e c off t)" "offset_ms_of (w_offsets w') (session_key c e) = Some off"
    using pg_store.batch_rows_at_store_offsets [OF assms(3,4,1,2,5)] by metis
  obtain e2 c2 off2 where 2: "row2 = fst (enrich_Row e2 c2 off2 t2)"
    "offset_ms_of (w_offsets u') (session_key c2 e2) = Some off2"
    using pg_store.batch_rows_at_store_offsets [OF assms(9,10,7,8,11)] by metis
  have key: "session_key c e = session_key c2 e2"
    using assms(12) 1(1) 2(1) by (simp add: same_delivery_def session_key_def)
  have "offset_ms_of (w_offsets u) (session_key c e) = Some off"
    unfolding assms(6) by (rule pg_store.get_all_stays [OF 1(2)])
  then have "offset_ms_of (w_offsets u') (session_key c e) = Some off"
    using pg_store.NewBatch_keeps_offsets [OF assms(9,7)] by blast
  with 2 key have "off2 = off" by simp
  with same_offset_same_sort_key [OF 1(1) _ assms(12-14)] 2(1) show ?thesis by simp
qed

end
