(* ===== verification/Attest.thy ===== *)
theory Attest
  imports Quota_Checker
begin

text \<open>
  \<open>services/ingest/internal/attest\<close>: the attestor interface with its \<open>Noop\<close> implementation and the
  one-time challenges. The interface \<open>ChallengeStore\<close> is the locale \<open>challenge_store\<close>, whose
  specification is a map from client and platform to the one outstanding nonce and its deadline;
  \<open>RedisChallenges\<close> meets it over any Redis server. The entropy source is an argument: the 32 bytes
  it gives, or \<open>None\<close>.
\<close>

section \<open>Attestors\<close>

type_synonym Attestor = "string \<Rightarrow> string \<Rightarrow> string \<Rightarrow> string \<times> bool"

definition Noop_Verify :: Attestor where
  "Noop_Verify platform blob challenge = ([], False)"

section \<open>base64.RawURLEncoding\<close>

definition url_digit :: "nat \<Rightarrow> char" where
  "url_digit d = ''ABCDEFGHIJKLMNOPQRSTUVWXYZabcdefghijklmnopqrstuvwxyz0123456789-_'' ! d"

definition quantum :: "nat list \<Rightarrow> nat \<Rightarrow> string" where
  "quantum bs k = (let v = foldl (\<lambda>a b. 256 * a + b) 0 (take 3 (bs @ [0, 0]))
     in map (\<lambda>i. url_digit (v div 64 ^ (3 - i) mod 64)) [0..<k])"

fun RawURLEncode :: "string \<Rightarrow> string" where
  "RawURLEncode [] = []"
| "RawURLEncode [a] = quantum [of_char a] 2"
| "RawURLEncode [a, b] = quantum [of_char a, of_char b] 3"
| "RawURLEncode (a # b # c # s) = quantum [of_char a, of_char b, of_char c] 4 @ RawURLEncode s"

lemma RawURLEncode_Nil_iff: "RawURLEncode s = [] \<longleftrightarrow> s = []"
  by (cases s rule: RawURLEncode.cases) (simp_all add: quantum_def Let_def)

section \<open>The Redis store\<close>

record RedisChallenges =
  rc_TTL :: duration

datatype challenge_error = ChallengeEntropy | StoreChallenge

definition challenge_key :: "string \<Rightarrow> string \<Rightarrow> string" where
  "challenge_key clientID platform = ''att:{'' @ clientID @ ''}:'' @ platform"

definition Issue :: "'r redis \<Rightarrow> RedisChallenges \<Rightarrow> string option \<Rightarrow> transport \<Rightarrow> string \<Rightarrow> string \<Rightarrow> 'r \<Rightarrow>
    (challenge_error + string) \<times> 'r" where
  "Issue R c rand net clientID platform r = (case rand of
      None \<Rightarrow> (Inl ChallengeEntropy, r)
    | Some raw \<Rightarrow>
        (let nonce = RawURLEncode raw in
         case run_script (\<lambda>t r. (Some (), rd_SET R t (challenge_key clientID platform) nonce (rc_TTL c) r)) net r of
           (None, r') \<Rightarrow> (Inl StoreChallenge, r')
         | (Some _, r') \<Rightarrow> (Inr nonce, r')))"

definition Consume :: "'r redis \<Rightarrow> transport \<Rightarrow> string \<Rightarrow> string \<Rightarrow> string \<Rightarrow> 'r \<Rightarrow> bool \<times> 'r" where
  "Consume R net clientID platform challenge r =
     (if challenge = [] then (False, r)
      else case run_script (\<lambda>t. rd_GETDEL R t (challenge_key clientID platform)) net r of
        (None, r') \<Rightarrow> (False, r')
      | (Some got, r') \<Rightarrow> (got = challenge, r'))"

section \<open>The interface\<close>

text \<open>The calls a challenge store gets, in the order it executes them.\<close>

datatype challenge_call =
    CIssue "string option" transport string string
  | CConsume transport string string string

definition ran_at :: "transport \<Rightarrow> gotime option" where
  "ran_at net = (case net of Answered t \<Rightarrow> Some t | Lost t \<Rightarrow> Some t | Refused \<Rightarrow> None)"

lemma ran_at_simps [simp]:
  "ran_at (Answered t) = Some t" "ran_at (Lost t) = Some t" "ran_at Refused = None"
  by (simp_all add: ran_at_def)

fun call_net :: "challenge_call \<Rightarrow> transport" where
  "call_net (CIssue rand net c p) = net"
| "call_net (CConsume net c p ch) = net"

fun draws :: "string \<Rightarrow> challenge_call \<Rightarrow> bool" where
  "draws ch (CIssue (Some raw) net c p) \<longleftrightarrow> RawURLEncode raw = ch"
| "draws ch _ \<longleftrightarrow> False"

definition call_times :: "challenge_call list \<Rightarrow> gotime list" where
  "call_times calls = concat (map (\<lambda>x. case ran_at (call_net x) of None \<Rightarrow> [] | Some t \<Rightarrow> [t]) calls)"

fun challenge_run :: "(string option \<Rightarrow> transport \<Rightarrow> string \<Rightarrow> string \<Rightarrow> 's \<Rightarrow> 'e \<times> 's) \<Rightarrow>
    (transport \<Rightarrow> string \<Rightarrow> string \<Rightarrow> string \<Rightarrow> 's \<Rightarrow> bool \<times> 's) \<Rightarrow> challenge_call list \<Rightarrow> 's \<Rightarrow>
    (string \<times> string \<times> string) list \<times> 's" where
  "challenge_run iss con [] s = ([], s)"
| "challenge_run iss con (CIssue rand net c p # calls) s =
     challenge_run iss con calls (snd (iss rand net c p s))"
| "challenge_run iss con (CConsume net c p ch # calls) s =
     (case con net c p ch s of (ok, s') \<Rightarrow>
       (case challenge_run iss con calls s' of (spent, s'') \<Rightarrow> (if ok then (c, p, ch) # spent else spent, s'')))"

locale challenge_store =
  fixes issue :: "string option \<Rightarrow> transport \<Rightarrow> string \<Rightarrow> string \<Rightarrow> 's \<Rightarrow> (challenge_error + string) \<times> 's"
    and consume :: "transport \<Rightarrow> string \<Rightarrow> string \<Rightarrow> string \<Rightarrow> 's \<Rightarrow> bool \<times> 's"
    and outstanding :: "'s \<Rightarrow> gotime \<Rightarrow> string \<Rightarrow> string \<Rightarrow> string option"
  assumes expires: "t \<le> t' \<Longrightarrow> outstanding s t' c p \<in> {None, outstanding s t c p}"
    and issues: "issue (Some raw) (Answered t) c p s = (Inr (RawURLEncode raw), s') \<Longrightarrow>
      outstanding s' t c p = Some (RawURLEncode raw)"
    and issue_adds: "ran_at net = Some t \<Longrightarrow>
      outstanding (snd (issue rand net c p s)) t c' p' \<in> {outstanding s t c' p', map_option RawURLEncode rand}"
    and issue_refused: "snd (issue rand Refused c p s) = s"
    and consumes: "consume (Answered t) c p ch s = (ok, s') \<Longrightarrow> ch \<noteq> [] \<Longrightarrow>
      ok = (outstanding s t c p = Some ch) \<and> outstanding s' t c p = None"
    and consume_only: "ran_at net = Some t \<Longrightarrow>
      outstanding (snd (consume net c p ch s)) t c' p' \<in> {None, outstanding s t c' p'}"
    and consume_unanswered: "net = Refused \<or> ch = [] \<Longrightarrow> consume net c p ch s = (False, s)"
    and consume_lost: "\<not> fst (consume (Lost t) c p ch s)"
begin

lemma consume_ok:
  assumes "consume net c p ch s = (True, s')"
  obtains t where "net = Answered t" "ch \<noteq> []" "outstanding s t c p = Some ch" "outstanding s' t c p = None"
proof -
  have "ch \<noteq> []" using assms consume_unanswered [of net ch c p s] by auto
  moreover obtain t where "net = Answered t"
    using assms consume_unanswered [of net ch c p s] consume_lost [of _ c p ch s] by (cases net) (auto, metis fst_conv)
  ultimately show thesis using that consumes [of t c p ch s True s'] assms by auto
qed

text \<open>A nonce that is not outstanding, and is not drawn again, is never accepted.\<close>

definition gone :: "'s \<Rightarrow> gotime \<Rightarrow> string \<Rightarrow> string \<Rightarrow> string \<Rightarrow> bool" where
  "gone s t c p ch \<longleftrightarrow> (\<forall>t' \<ge> t. outstanding s t' c p \<noteq> Some ch)"

lemma gone_iff: "gone s t c p ch \<longleftrightarrow> outstanding s t c p \<noteq> Some ch"
  using expires [of t _ s c p] by (fastforce simp: gone_def)

lemma issue_gone:
  assumes "gone s t c p ch" "\<forall>u. ran_at net = Some u \<longrightarrow> t \<le> u" "\<not> draws ch (CIssue rand net c' p')"
  shows "gone (snd (issue rand net c' p' s)) (case ran_at net of None \<Rightarrow> t | Some u \<Rightarrow> u) c p ch"
proof (cases "ran_at net")
  case None
  then show ?thesis using assms issue_refused by (cases net) auto
next
  case (Some u')
  have "map_option RawURLEncode rand \<noteq> Some ch" using assms(3) by (cases rand) auto
  moreover have "outstanding s u' c p \<noteq> Some ch" using assms(1,2) Some by (simp add: gone_def)
  ultimately show ?thesis
    using Some issue_adds [OF Some, of rand c' p' s c p] by (auto simp: gone_iff)
qed

lemma consume_gone:
  assumes "gone s t c p ch" "\<forall>u. ran_at net = Some u \<longrightarrow> t \<le> u"
  shows "gone (snd (consume net c' p' ch' s)) (case ran_at net of None \<Rightarrow> t | Some u \<Rightarrow> u) c p ch"
    and "fst (consume net c' p' ch' s) \<Longrightarrow> (c', p', ch') \<noteq> (c, p, ch)"
proof -
  show "gone (snd (consume net c' p' ch' s)) (case ran_at net of None \<Rightarrow> t | Some u \<Rightarrow> u) c p ch"
  proof (cases "ran_at net")
    case None
    then show ?thesis using assms consume_unanswered [of net ch' c' p' s] by (cases net) auto
  next
    case (Some u)
    have "outstanding s u c p \<noteq> Some ch" using assms Some by (simp add: gone_def)
    with consume_only [OF Some, of c' p' ch' s c p] show ?thesis by (auto simp: gone_iff Some)
  qed
  show "(c', p', ch') \<noteq> (c, p, ch)" if "fst (consume net c' p' ch' s)"
  proof -
    have "consume net c' p' ch' s = (True, snd (consume net c' p' ch' s))"
      using that by (simp add: prod_eq_iff)
    then show ?thesis using assms by (auto elim!: consume_ok simp: gone_def)
  qed
qed

lemma never_accepted:
  "gone s t c p ch \<Longrightarrow> sorted (t # call_times calls) \<Longrightarrow> \<not> (\<exists>x \<in> set calls. draws ch x) \<Longrightarrow>
   (c, p, ch) \<notin> set (fst (challenge_run issue consume calls s))"
proof (induction calls arbitrary: s t)
  case (Cons call calls)
  define u where "u = (case ran_at (call_net call) of None \<Rightarrow> t | Some u \<Rightarrow> u)"
  have u: "sorted (u # call_times calls)" "\<forall>v. ran_at (call_net call) = Some v \<longrightarrow> t \<le> v"
    using Cons.prems(2) by (auto simp: u_def call_times_def split: option.splits)
  show ?case
  proof (cases call)
    case (CIssue rand net c' p')
    with Cons.IH [OF issue_gone u(1) [unfolded u_def]] Cons.prems u(2) show ?thesis by simp
  next
    case (CConsume net c' p' ch')
    then have "gone (snd (consume net c' p' ch' s)) u c p ch"
      using consume_gone(1) [OF Cons.prems(1)] u(2) by (simp add: u_def)
    moreover have "fst (consume net c' p' ch' s) \<Longrightarrow> (c', p', ch') \<noteq> (c, p, ch)"
      using consume_gone(2) [OF Cons.prems(1)] u(2) CConsume by simp
    ultimately show ?thesis
      using Cons.IH u(1) Cons.prems(3) CConsume by (simp add: case_prod_unfold) blast
  qed
qed simp

lemma spent_once:
  assumes "consume net c p ch s = (True, s')" "ran_at net = Some t" "sorted (t # call_times calls)"
    "\<not> (\<exists>x \<in> set calls. draws ch x)"
  shows "(c, p, ch) \<notin> set (fst (challenge_run issue consume calls s'))"
proof (rule never_accepted [OF _ assms(3,4)])
  have "outstanding s' t c p = None" using assms(1,2) by (auto elim!: consume_ok)
  then show "gone s' t c p ch" by (simp add: gone_iff)
qed

end

section \<open>RedisChallenges meets the interface\<close>

definition outstanding_of :: "('r \<Rightarrow> gotime \<Rightarrow> string \<Rightarrow> entry) \<Rightarrow> 'r \<Rightarrow> gotime \<Rightarrow> string \<Rightarrow> string \<Rightarrow> string option" where
  "outstanding_of view r t c p = map_option fst (view r t (challenge_key c p))"

definition production_challenges :: RedisChallenges where
  "production_challenges = \<lparr>rc_TTL = 5 * Minute\<rparr>"

sublocale redis_server \<subseteq> ch: challenge_store "Issue R production_challenges" "Consume R" "outstanding_of view"
proof
  fix t t' :: gotime and s c p
  assume "t \<le> t'"
  with passes [of t t' s "challenge_key c p"]
  show "outstanding_of view s t' c p \<in> {None, outstanding_of view s t c p}"
    by (auto simp: outstanding_of_def live_at_def split: option.splits)
next
  fix raw t c p s s'
  assume "Issue R production_challenges (Some raw) (Answered t) c p s = (Inr (RawURLEncode raw), s')"
  with SET [of "5 * Minute" t "challenge_key c p" "RawURLEncode raw" s]
  show "outstanding_of view s' t c p = Some (RawURLEncode raw)"
    by (auto simp: Issue_def run_script_def outstanding_of_def production_challenges_def Let_def)
next
  fix net t rand c p s c' p'
  assume "ran_at net = Some t"
  with SET [of "5 * Minute" t "challenge_key c p" _ s]
  show "outstanding_of view (snd (Issue R production_challenges rand net c p s)) t c' p' \<in>
      {outstanding_of view s t c' p', map_option RawURLEncode rand}"
    by (cases net; cases rand)
      (auto simp: Issue_def run_script_def outstanding_of_def production_challenges_def Let_def)
next
  fix t c p ch s ok s'
  assume "Consume R (Answered t) c p ch s = (ok, s')" "ch \<noteq> []"
  with GETDEL [of t "challenge_key c p" s]
  show "ok = (outstanding_of view s t c p = Some ch) \<and> outstanding_of view s' t c p = None"
    by (auto simp: Consume_def run_script_def outstanding_of_def split: option.splits prod.splits)
next
  fix net t c p ch s c' p'
  assume "ran_at net = Some t"
  with GETDEL [of t "challenge_key c p" s]
  show "outstanding_of view (snd (Consume R net c p ch s)) t c' p' \<in> {None, outstanding_of view s t c' p'}"
    by (cases net) (auto simp: Consume_def run_script_def outstanding_of_def split: option.splits prod.splits)
qed (auto simp: Issue_def Consume_def run_script_def Let_def split: option.splits)

context redis_server
begin

lemma challenge_roundtrip:
  assumes "Issue R production_challenges (Some raw) (Answered t) c p r = (res, r1)" "raw \<noteq> []" "t \<le> t'"
  shows "res = Inr (RawURLEncode raw)"
    and "fst (Consume R (Answered t') c p guess r1) \<longleftrightarrow> t' < t + 5 * Minute \<and> guess = RawURLEncode raw"
proof -
  show "res = Inr (RawURLEncode raw)"
    using assms(1) by (auto simp: Issue_def run_script_def Let_def)
  have ne: "[] \<noteq> RawURLEncode raw" using assms(2) by (metis RawURLEncode_Nil_iff)
  have "view r1 t (challenge_key c p) = Some (RawURLEncode raw, Some (t + 5 * Minute))"
    using SET [of "5 * Minute" t "challenge_key c p" "RawURLEncode raw" r] assms(1)
    by (auto simp: Issue_def run_script_def Let_def production_challenges_def)
  with passes [OF assms(3), of r1 "challenge_key c p"]
  have "outstanding_of view r1 t' c p = (if t' < t + 5 * Minute then Some (RawURLEncode raw) else None)"
    by (simp add: outstanding_of_def live_at_def)
  with ch.consumes [of t' c p guess r1] ch.consume_unanswered [of "Answered t'" guess c p r1] ne
  show "fst (Consume R (Answered t') c p guess r1) \<longleftrightarrow> t' < t + 5 * Minute \<and> guess = RawURLEncode raw"
    by (cases "Consume R (Answered t') c p guess r1"; cases "guess = []")
      (auto split: if_splits)
qed

lemma challenge_spent_once:
  assumes "Consume R (Answered t) c p guess r = (True, r')" "sorted (t # call_times calls)"
    "\<not> (\<exists>x \<in> set calls. draws guess x)"
  shows "(c, p, guess) \<notin> set (fst (challenge_run (Issue R production_challenges) (Consume R) calls r'))"
  using ch.spent_once [OF assms(1) _ assms(2,3)] by simp

end

section \<open>Properties\<close>

text \<open>
  An attestation challenge is spent at most once: after a successful \<open>Consume\<close> no later call with
  the same client, platform and challenge succeeds, in any sequence of later calls (lost replies and
  failed round trips among them), unless the entropy source draws that very nonce again.
\<close>

lemma challenge_single_use:
  assumes "redis_server R view" "Consume R (Answered t) c p guess r = (True, r')"
    and "sorted (t # call_times calls)" "\<not> (\<exists>x \<in> set calls. draws guess x)"
  shows "(c, p, guess) \<notin> set (fst (challenge_run (Issue R production_challenges) (Consume R) calls r'))"
  using assms by (rule redis_server.challenge_spent_once)

definition one_challenge :: keyspace where
  "one_challenge = [challenge_key ''c1'' ''ios'' \<mapsto> (''n1'', Some 300)]"

text \<open>
  The challenge round trip: a challenge that was issued is accepted within five minutes and not
  after, and during that time no other text is, whatever was outstanding for this client and
  platform before.
\<close>

lemma challenge_accepted_while_fresh:
  assumes "redis_server R view" "raw \<noteq> []" "t \<le> t'"
    and "Issue R production_challenges (Some raw) (Answered t) c p r = (res, r1)"
  shows "res = Inr (RawURLEncode raw) \<and>
    (fst (Consume R (Answered t') c p guess r1) \<longleftrightarrow> t' < t + 5 * Minute \<and> guess = RawURLEncode raw)"
  using redis_server.challenge_roundtrip [OF assms(1,4,2,3)] by blast

end
