(* ===== verification/Token_Handler.thy ===== *)
theory Token_Handler
  imports Http_Io Attest Control_Plane Wire
begin

text \<open>
  \<open>services/ingest/internal/handler/token.go\<close> and \<open>jwks.go\<close>: the token exchange, the challenge endpoint and
  the published key set. \<open>TokenDeps\<close> holds the wiring and what becomes of each round trip; the state a
  request can change is the Redis keyspace and the control plane. The challenge store is
  \<open>RedisChallenges\<close>, as \<open>main.go\<close> wires it; the attestor is an argument.
\<close>

section \<open>Wiring and state\<close>

record ('r, 'd) TokenDeps =
  td_Signer :: jwx_signer
  td_Minter :: Minter
  td_Attestor :: Attestor
  td_Challenges :: RedisChallenges
  td_Redis :: "'r redis"
  td_ResolveTenant :: "string \<Rightarrow> string option"
  td_IssueInstall :: "string \<Rightarrow> string \<Rightarrow> string \<Rightarrow> string \<Rightarrow> uint8 \<Rightarrow> 'd \<Rightarrow> (store_error + string) \<times> 'd"
  td_RateLimit :: bool
  td_RateNet :: transport
  td_ChallengeNet :: transport
  td_Rand :: "string option"
  td_gzip :: gzip_NewReader
  td_Unmarshal :: "string \<Rightarrow> TokenRequest option"
  td_Marshal :: "TokenResponse \<Rightarrow> string option"

record ('r, 'd) token_world =
  tw_redis :: 'r
  tw_db :: 'd

definition tokenRatePerMinute :: int where "tokenRatePerMinute = 30"
definition tokenRateWindow :: duration where "tokenRateWindow = Minute"

definition no_store_header :: "string \<Rightarrow> string option" where
  "no_store_header = [''Content-Type'' \<mapsto> ''application/json'', ''Cache-Control'' \<mapsto> ''no-store'']"

definition deviceKey :: "TokenRequest \<Rightarrow> string" where
  "deviceKey req = hex_EncodeToString (Sum256 (Join [t_ClientId req, t_Platform req, t_DeviceHint req] [CHR 0x00]))"

section \<open>The handlers\<close>

text \<open>The per-client ceiling both endpoints start with; a response means the request ends here.\<close>

definition client_ceiling :: "('r, 'd) TokenDeps \<Rightarrow> string \<Rightarrow> 'r \<Rightarrow> response option \<times> 'r" where
  "client_ceiling D k r =
     (if \<not> td_RateLimit D then (None, r)
      else case AllowClient (td_Redis D) (td_RateNet D) k tokenRatePerMinute tokenRateWindow r of
        (Inl _, r') \<Rightarrow> (Some (httpError Map.empty 503 ''rate limit unavailable''), r')
      | (Inr ok, r') \<Rightarrow>
          (if ok then None else Some (httpError [''Retry-After'' \<mapsto> ''60''] 429 ''rate_limit''), r'))"

text \<open>The tier an exchange earns: 0 for a live challenge and an attestation that verifies, else 1.\<close>

definition assign_tier :: "('r, 'd) TokenDeps \<Rightarrow> TokenRequest \<Rightarrow> 'r \<Rightarrow> (string \<times> uint8) \<times> 'r" where
  "assign_tier D req r =
     (case Consume (td_Redis D) (td_ChallengeNet D) (t_ClientId req) (t_Platform req) (t_Challenge req) r of
        (False, r') \<Rightarrow> (([], 1), r')
      | (True, r') \<Rightarrow>
          (case td_Attestor D (t_Platform req) (t_Attestation req) (t_Challenge req) of
             (s, True) \<Rightarrow> ((s, 0), r')
           | (s, False) \<Rightarrow> (([], 1), r')))"

definition mint_for :: "('r, 'd) TokenDeps \<Rightarrow> string \<Rightarrow> string \<Rightarrow> uint8 \<Rightarrow> gotime \<Rightarrow> response" where
  "mint_for D tenantID installID tier now =
     (case Mint (td_Signer D) (td_Minter D) \<lparr>c_TenantID = tenantID, c_InstallID = installID,
            c_Scope = ScopeWriteEvents, c_TrustTier = tier\<rparr> now of
        Inl _ \<Rightarrow> httpError Map.empty 500 ''mint failed''
      | Inr (token, expiresIn) \<Rightarrow>
          (case td_Marshal D \<lparr>tr_AccessToken = token, tr_ExpiresIn = expiresIn, tr_TrustTier = ucast tier\<rparr> of
             None \<Rightarrow> httpError Map.empty 500 ''encode''
           | Some out \<Rightarrow> \<lparr>rs_Code = 200, rs_Header = no_store_header, rs_Body = RawBody out\<rparr>))"

definition NewToken :: "('r, 'd) TokenDeps \<Rightarrow> http_request \<Rightarrow> gotime \<Rightarrow> ('r, 'd) token_world \<Rightarrow>
    response \<times> ('r, 'd) token_world" where
  "NewToken D rq now w =
     (case readBody (td_gzip D) rq of
        Inl _ \<Rightarrow> (httpError Map.empty 400 ''unreadable body'', w)
      | Inr body \<Rightarrow>
          (case td_Unmarshal D body of
             None \<Rightarrow> (httpError Map.empty 400 ''malformed request'', w)
           | Some req \<Rightarrow>
               (case td_ResolveTenant D (t_ClientId req) of
                  None \<Rightarrow> (httpError Map.empty 401 ''unknown client_id'', w)
                | Some tenantID \<Rightarrow>
                    (case client_ceiling D (''rl:token:'' @ t_ClientId req) (tw_redis w) of
                       (Some stop, r') \<Rightarrow> (stop, w\<lparr>tw_redis := r'\<rparr>)
                     | (None, r') \<Rightarrow>
                         (case assign_tier D req r' of ((subject, tier), r'') \<Rightarrow>
                           (case td_IssueInstall D tenantID (t_Platform req) subject (deviceKey req) tier (tw_db w) of
                              (Inl _, db') \<Rightarrow> (httpError Map.empty 503 ''install issuance unavailable'',
                                             \<lparr>tw_redis = r'', tw_db = db'\<rparr>)
                            | (Inr installID, db') \<Rightarrow>
                                (mint_for D tenantID installID tier now, \<lparr>tw_redis = r'', tw_db = db'\<rparr>)))))))"

definition NewChallenge :: "('r, 'd) TokenDeps \<Rightarrow> http_request \<Rightarrow> ('r, 'd) token_world \<Rightarrow>
    response \<times> ('r, 'd) token_world" where
  "NewChallenge D rq w =
     (case readBody (td_gzip D) rq of
        Inl _ \<Rightarrow> (httpError Map.empty 400 ''unreadable body'', w)
      | Inr body \<Rightarrow>
          (case td_Unmarshal D body of
             None \<Rightarrow> (httpError Map.empty 400 ''malformed request'', w)
           | Some req \<Rightarrow>
               (case td_ResolveTenant D (t_ClientId req) of
                  None \<Rightarrow> (httpError Map.empty 401 ''unknown client_id'', w)
                | Some _ \<Rightarrow>
                    (case client_ceiling D (''rl:challenge:'' @ t_ClientId req) (tw_redis w) of
                       (Some stop, r') \<Rightarrow> (stop, w\<lparr>tw_redis := r'\<rparr>)
                     | (None, r') \<Rightarrow>
                         (case Issue (td_Redis D) (td_Challenges D) (td_Rand D) (td_ChallengeNet D)
                                 (t_ClientId req) (t_Platform req) r' of
                            (Inl _, r'') \<Rightarrow> (httpError Map.empty 503 ''challenge unavailable'', w\<lparr>tw_redis := r''\<rparr>)
                          | (Inr nonce, r'') \<Rightarrow>
                              (\<lparr>rs_Code = 200, rs_Header = no_store_header, rs_Body = ChallengeBody nonce\<rparr>,
                               w\<lparr>tw_redis := r''\<rparr>))))))"

text \<open>\<open>NewJWKS\<close>: the encoded key set is represented by the set itself.\<close>

definition NewJWKS :: "jwk_lib \<Rightarrow> pg_outcome \<Rightarrow> control_db \<Rightarrow> nat \<times> (string \<Rightarrow> string option) \<times> (string + jwk_set)" where
  "NewJWKS J pg db = (case PublicJWKS J pg db of
      Inl _ \<Rightarrow> (503, [''Content-Type'' \<mapsto> ''text/plain; charset=utf-8'', ''X-Content-Type-Options'' \<mapsto> ''nosniff''],
              Inl ''jwks unavailable'')
    | Inr s \<Rightarrow> (200, [''Content-Type'' \<mapsto> ''application/jwk-set+json'', ''Cache-Control'' \<mapsto> ''public, max-age=60''],
              Inr s))"

section \<open>How an exchange runs\<close>

lemma client_ceiling_stops:
  "client_ceiling D k r = (Some stop, r') \<Longrightarrow> rs_Code stop \<in> {429, 503}"
  by (auto simp: client_ceiling_def split: if_splits prod.splits sum.splits)

lemma mint_for_code: "rs_Code (mint_for D tid i tier now) \<in> {200, 500}"
  by (simp add: mint_for_def split: sum.splits prod.splits option.splits)

lemma NewToken_cases:
  assumes "NewToken D rq now w = (rs, w')"
  obtains (refused) "rs_Code rs \<in> {400, 401}" "w' = w"
  | (limited) "rs_Code rs \<in> {429, 503}" "tw_db w' = tw_db w"
  | (exchanged) body req tid r1 subject tier r2 res db' where
      "readBody (td_gzip D) rq = Inr body" "td_Unmarshal D body = Some req" "td_ResolveTenant D (t_ClientId req) = Some tid"
      "client_ceiling D (''rl:token:'' @ t_ClientId req) (tw_redis w) = (None, r1)"
      "assign_tier D req r1 = ((subject, tier), r2)"
      "td_IssueInstall D tid (t_Platform req) subject (deviceKey req) tier (tw_db w) = (res, db')"
      "w' = \<lparr>tw_redis = r2, tw_db = db'\<rparr>"
      "rs = (case res of Inl _ \<Rightarrow> httpError Map.empty 503 ''install issuance unavailable'' | Inr i \<Rightarrow> mint_for D tid i tier now)"
proof (cases "readBody (td_gzip D) rq")
  case (Inl e)
  with assms refused show thesis by (auto simp: NewToken_def)
next
  case body: (Inr body)
  show thesis
  proof (cases "td_Unmarshal D body")
    case None
    with body assms refused show thesis by (auto simp: NewToken_def)
  next
    case req: (Some req)
    show thesis
    proof (cases "td_ResolveTenant D (t_ClientId req)")
      case None
      with body req assms refused show thesis by (auto simp: NewToken_def)
    next
      case tid: (Some tid)
      obtain stop r1 where ce: "client_ceiling D (''rl:token:'' @ t_ClientId req) (tw_redis w) = (stop, r1)" by fastforce
      obtain subject tier r2 where ti: "assign_tier D req r1 = ((subject, tier), r2)" by (metis prod.exhaust)
      obtain res db' where iss: "td_IssueInstall D tid (t_Platform req) subject (deviceKey req) tier (tw_db w) = (res, db')"
        by fastforce
      show thesis
      proof (cases stop)
        case None
        with exchanged [OF body req tid _ ti iss] ce assms body req tid ti iss show thesis
          by (simp add: NewToken_def split: sum.splits)
      next
        case (Some s)
        have "rs_Code s \<in> {429, 503}" using client_ceiling_stops [of D _ _ s r1] ce Some by blast
        with Some ce limited assms body req tid show thesis by (auto simp: NewToken_def)
      qed
    qed
  qed
qed

lemma assign_tier_cases:
  assumes "assign_tier D req r = ((subject, tier), r')"
  shows "r' = snd (Consume (td_Redis D) (td_ChallengeNet D) (t_ClientId req) (t_Platform req) (t_Challenge req) r)"
    and "tier = (if fst (Consume (td_Redis D) (td_ChallengeNet D) (t_ClientId req) (t_Platform req) (t_Challenge req) r) \<and>
          snd (td_Attestor D (t_Platform req) (t_Attestation req) (t_Challenge req)) then 0 else 1)"
    and "subject = (if tier = 0 then fst (td_Attestor D (t_Platform req) (t_Attestation req) (t_Challenge req)) else [])"
  using assms
  by (auto simp: assign_tier_def split: prod.splits bool.splits)

lemma mint_for_200:
  assumes "rs_Code (mint_for D tid i tier now) = 200"
  obtains tok n out where "Mint (td_Signer D) (td_Minter D) \<lparr>c_TenantID = tid, c_InstallID = i,
      c_Scope = ScopeWriteEvents, c_TrustTier = tier\<rparr> now = Inr (tok, n)"
    "td_Marshal D \<lparr>tr_AccessToken = tok, tr_ExpiresIn = n, tr_TrustTier = ucast tier\<rparr> = Some out"
    "rs_Body (mint_for D tid i tier now) = RawBody out"
  using assms by (auto simp: mint_for_def split: sum.splits prod.splits option.splits)

text \<open>A signing library that can build, head and sign every token.\<close>

definition signs_all :: "jwx_signer \<Rightarrow> bool" where
  "signs_all J \<longleftrightarrow> (\<forall>tok. jx_Build J tok) \<and> (\<forall>h v. jx_HdrSet J h v) \<and> (\<forall>hd k tok. jx_Sign J hd k tok \<noteq> None)"

lemma mint_for_up:
  assumes "signs_all (td_Signer D)" "\<And>resp. td_Marshal D resp \<noteq> None"
  shows "rs_Code (mint_for D tid i tier now) = 200"
proof -
  have "\<exists>tok n. Mint (td_Signer D) (td_Minter D) c now = Inr (tok, n)" for c
    using assms(1) by (simp add: Mint_def signs_all_def Let_def split: option.splits)
  then obtain tok n where "Mint (td_Signer D) (td_Minter D) \<lparr>c_TenantID = tid, c_InstallID = i,
      c_Scope = ScopeWriteEvents, c_TrustTier = tier\<rparr> now = Inr (tok, n)" by blast
  with assms(2) show ?thesis by (auto simp: mint_for_def split: option.splits)
qed

lemma NewToken_200:
  assumes "NewToken D rq now w = (rs, w')" "rs_Code rs = 200"
  obtains body req tid r1 subject tier i tok n out where
    "readBody (td_gzip D) rq = Inr body" "td_Unmarshal D body = Some req" "td_ResolveTenant D (t_ClientId req) = Some tid"
    "client_ceiling D (''rl:token:'' @ t_ClientId req) (tw_redis w) = (None, r1)"
    "assign_tier D req r1 = ((subject, tier), tw_redis w')"
    "td_IssueInstall D tid (t_Platform req) subject (deviceKey req) tier (tw_db w) = (Inr i, tw_db w')"
    "Mint (td_Signer D) (td_Minter D) \<lparr>c_TenantID = tid, c_InstallID = i, c_Scope = ScopeWriteEvents,
       c_TrustTier = tier\<rparr> now = Inr (tok, n)"
    "td_Marshal D \<lparr>tr_AccessToken = tok, tr_ExpiresIn = n, tr_TrustTier = ucast tier\<rparr> = Some out"
    "rs_Body rs = RawBody out"
  using assms(1)
proof (cases rule: NewToken_cases)
  case (exchanged body req tid r1 subject tier r2 res db')
  then obtain i where i: "res = Inr i" "rs = mint_for D tid i tier now" using assms(2) by (cases res) auto
  obtain tok n out where "Mint (td_Signer D) (td_Minter D) \<lparr>c_TenantID = tid, c_InstallID = i,
      c_Scope = ScopeWriteEvents, c_TrustTier = tier\<rparr> now = Inr (tok, n)"
    "td_Marshal D \<lparr>tr_AccessToken = tok, tr_ExpiresIn = n, tr_TrustTier = ucast tier\<rparr> = Some out"
    "rs_Body rs = RawBody out"
    using mint_for_200 [of D tid i tier now] assms(2) i(2) by metis
  with that exchanged i show thesis by simp
qed (use assms(2) in auto)

section \<open>Properties\<close>

text \<open>
  C9. Tier 0 has to be earned: a token is minted at tier 0 exactly when the request's challenge was
  accepted by the challenge store, in the state the rate limiter left, and the attestor vouched for an attestation over that challenge;
  every other successful exchange, a replayed attestation included, gets tier 1 and is not refused.
  The token is for the tenant its client id resolves to and the install id the control plane
  answered, never for anything else the client sent.
\<close>

theorem token_tier_is_earned:
  assumes "NewToken D rq now w = (rs, w')" "rs_Code rs = 200"
  shows "\<exists>body req tid r1 i tok n out. readBody (td_gzip D) rq = Inr body \<and> td_Unmarshal D body = Some req \<and>
    td_ResolveTenant D (t_ClientId req) = Some tid \<and>
    client_ceiling D (''rl:token:'' @ t_ClientId req) (tw_redis w) = (None, r1) \<and>
    (let att = td_Attestor D (t_Platform req) (t_Attestation req) (t_Challenge req);
         earned = fst (Consume (td_Redis D) (td_ChallengeNet D) (t_ClientId req) (t_Platform req) (t_Challenge req) r1) \<and> snd att;
         tier = (if earned then 0 else 1)
     in fst (td_IssueInstall D tid (t_Platform req) (if earned then fst att else []) (deviceKey req) tier (tw_db w)) = Inr i \<and>
        Mint (td_Signer D) (td_Minter D) \<lparr>c_TenantID = tid, c_InstallID = i, c_Scope = ''write:events'', c_TrustTier = tier\<rparr> now =
          Inr (tok, n) \<and>
        td_Marshal D \<lparr>tr_AccessToken = tok, tr_ExpiresIn = n, tr_TrustTier = (if earned then 0 else 1)\<rparr> = Some out) \<and>
    rs_Body rs = RawBody out"
  using assms
proof (rule NewToken_200)
  fix body and req :: TokenRequest and tid r1 subject tier i tok n out
  assume tier: "assign_tier D req r1 = ((subject, tier), tw_redis w')"
    and rest: "readBody (td_gzip D) rq = Inr body" "td_Unmarshal D body = Some req"
      "td_ResolveTenant D (t_ClientId req) = Some tid"
      "client_ceiling D (''rl:token:'' @ t_ClientId req) (tw_redis w) = (None, r1)"
      "td_IssueInstall D tid (t_Platform req) subject (deviceKey req) tier (tw_db w) = (Inr i, tw_db w')"
      "Mint (td_Signer D) (td_Minter D) \<lparr>c_TenantID = tid, c_InstallID = i, c_Scope = ScopeWriteEvents,
         c_TrustTier = tier\<rparr> now = Inr (tok, n)"
      "td_Marshal D \<lparr>tr_AccessToken = tok, tr_ExpiresIn = n, tr_TrustTier = ucast tier\<rparr> = Some out"
      "rs_Body rs = RawBody out"
  let ?att = "td_Attestor D (t_Platform req) (t_Attestation req) (t_Challenge req)"
  let ?earned = "fst (Consume (td_Redis D) (td_ChallengeNet D) (t_ClientId req) (t_Platform req) (t_Challenge req) r1) \<and> snd ?att"
  have tier: "tier = (if ?earned then 0 else 1)" "subject = (if ?earned then fst ?att else [])"
    "(ucast tier :: 32 word) = (if ?earned then 0 else 1)"
    using assign_tier_cases(2,3) [OF tier] by simp_all
  note rest = rest [unfolded tier(3), unfolded tier(1,2) ScopeWriteEvents_def]
  show ?thesis
    by (rule exI [of _ body], rule exI [of _ req], rule exI [of _ tid], rule exI [of _ r1], rule exI [of _ i],
        rule exI [of _ tok], rule exI [of _ n], rule exI [of _ out]) (simp only: Let_def rest fst_conv simp_thms)
qed

definition sample_token_deps :: "(keyspace, control_db) TokenDeps" where
  "sample_token_deps = \<lparr>td_Signer = sample_signer, td_Minter = sample_minter, td_Attestor = (\<lambda>_ _ _. (''subj'', True)),
     td_Challenges = production_challenges, td_Redis = mem_redis, td_ResolveTenant = (\<lambda>_. Some ''t1''),
     td_IssueInstall = (\<lambda>_ _ _ _ _ db. (Inr ''ins_1'', db)), td_RateLimit = False, td_RateNet = Refused,
     td_ChallengeNet = Answered 0, td_Rand = None, td_gzip = (\<lambda>_. None),
     td_Unmarshal = (\<lambda>_. Some \<lparr>t_ClientId = ''c1'', t_Platform = ''ios'', t_Attestation = ''blob'',
        t_Challenge = ''n1'', t_DeviceHint = ''h''\<rparr>), td_Marshal = (\<lambda>r. Some (tr_AccessToken r))\<rparr>"

definition post :: http_request where
  "post = \<lparr>rq_Authorization = [], rq_ContentEncoding = [], rq_Body = \<lparr>rd_bytes = ''x'', rd_end = EOF\<rparr>\<rparr>"

lemma post_body: "readBody gz post = Inr ''x''"
  by (simp add: readBody_def post_def MaxBytesReader_def read_capped_def ReadAll_def MaxBatchBytes_def)

definition two_tier_deps :: "(keyspace, control_db) TokenDeps" where
  "two_tier_deps = sample_token_deps\<lparr>td_Signer := \<lparr>jx_Build = (\<lambda>_. True), jx_HdrSet = (\<lambda>_ _. True), jx_Import = Some,
       jx_Sign = (\<lambda>_ _ _. Some ''tok'')\<rparr>,
     td_Marshal := (\<lambda>r. Some (if tr_TrustTier r = 1 then ''one'' else ''zero''))\<rparr>"

lemma two_tier_fields:
  "td_gzip two_tier_deps = (\<lambda>_. None)" "td_RateLimit two_tier_deps = False" "td_Redis two_tier_deps = mem_redis"
  "td_ChallengeNet two_tier_deps = Answered 0" "td_ResolveTenant two_tier_deps = (\<lambda>_. Some ''t1'')"
  "td_Attestor two_tier_deps = (\<lambda>_ _ _. (''subj'', True))"
  "td_IssueInstall two_tier_deps = (\<lambda>_ _ _ _ _ db. (Inr ''ins_1'', db))"
  "td_Unmarshal two_tier_deps = (\<lambda>_. Some \<lparr>t_ClientId = ''c1'', t_Platform = ''ios'', t_Attestation = ''blob'',
     t_Challenge = ''n1'', t_DeviceHint = ''h''\<rparr>)"
  "td_Marshal two_tier_deps = (\<lambda>r. Some (if tr_TrustTier r = 1 then ''one'' else ''zero''))"
  by (simp_all add: two_tier_deps_def sample_token_deps_def)

lemma two_tier_signs: "signs_all (td_Signer two_tier_deps)" "td_Marshal two_tier_deps resp \<noteq> None"
  by (simp_all add: signs_all_def two_tier_deps_def)

text \<open>The same exchange with its challenge outstanding, and after it was spent.\<close>

theorem token_tier_is_earned_witness:
  "(\<exists>rs w'. NewToken two_tier_deps post 0 \<lparr>tw_redis = one_challenge, tw_db = sample_db\<rparr> = (rs, w') \<and> rs_Body rs = RawBody ''zero'') \<and>
   (\<exists>rs w'. NewToken two_tier_deps post 0 \<lparr>tw_redis = Map.empty, tw_db = sample_db\<rparr> = (rs, w') \<and> rs_Body rs = RawBody ''one'')"
proof -
  have run: "rs_Body rs = RawBody (if fst (Consume mem_redis (Answered 0) ''c1'' ''ios'' ''n1'' r) then ''zero'' else ''one'')"
    if "NewToken two_tier_deps post 0 \<lparr>tw_redis = r, tw_db = sample_db\<rparr> = (rs, w')" for r rs w'
  proof -
    have "rs_Code rs = 200"
      using that mint_for_up [OF two_tier_signs]
      by (auto simp: NewToken_def post_body two_tier_fields client_ceiling_def split: prod.splits)
    from token_tier_is_earned [OF that this] show ?thesis
      by (simp add: Let_def post_body two_tier_fields client_ceiling_def split: if_splits)
  qed
  have spent: "fst (Consume mem_redis (Answered 0) ''c1'' ''ios'' ''n1'' one_challenge)"
    "\<not> fst (Consume mem_redis (Answered 0) ''c1'' ''ios'' ''n1'' Map.empty)"
    by (simp_all add: Consume_def run_script_def mem_redis_def mem_GET_def mem_view_def live_at_def one_challenge_def)
  obtain rs w' rs2 w2 where runs: "NewToken two_tier_deps post 0 \<lparr>tw_redis = one_challenge, tw_db = sample_db\<rparr> = (rs, w')"
    "NewToken two_tier_deps post 0 \<lparr>tw_redis = Map.empty, tw_db = sample_db\<rparr> = (rs2, w2)"
    by fastforce
  with run [OF runs(1)] run [OF runs(2)] spent show ?thesis by simp
qed

text \<open>
  With the production attestor no exchange ever yields a privileged token: \<open>Noop\<close> vouches for nothing,
  so every token \<open>NewToken\<close> mints is for trust tier 1 and says so in its answer.
\<close>

lemma noop_attestor_mints_tier_1:
  assumes "td_Attestor D = Noop_Verify" "NewToken D rq now w = (rs, w')" "rs_Code rs = 200"
  shows "\<exists>tid i tok n out. Mint (td_Signer D) (td_Minter D) \<lparr>c_TenantID = tid, c_InstallID = i, c_Scope = ''write:events'',
      c_TrustTier = 1\<rparr> now = Inr (tok, n) \<and>
    td_Marshal D \<lparr>tr_AccessToken = tok, tr_ExpiresIn = n, tr_TrustTier = 1\<rparr> = Some out \<and> rs_Body rs = RawBody out"
  using assms(2,3)
proof (rule NewToken_200)
  fix body and req :: TokenRequest and tid r1 subject tier i tok n out
  assume "assign_tier D req r1 = ((subject, tier), tw_redis w')"
    and rest: "Mint (td_Signer D) (td_Minter D) \<lparr>c_TenantID = tid, c_InstallID = i, c_Scope = ScopeWriteEvents,
         c_TrustTier = tier\<rparr> now = Inr (tok, n)"
      "td_Marshal D \<lparr>tr_AccessToken = tok, tr_ExpiresIn = n, tr_TrustTier = ucast tier\<rparr> = Some out"
      "rs_Body rs = RawBody out"
  with assign_tier_cases(2) have "tier = 1" using assms(1) by (fastforce simp: Noop_Verify_def)
  with rest show ?thesis by (auto simp: ScopeWriteEvents_def)
qed

section \<open>One challenge, one exchange\<close>

definition net_times :: "transport \<Rightarrow> gotime list" where
  "net_times net = (case ran_at net of None \<Rightarrow> [] | Some t \<Rightarrow> [t])"

context redis_server
begin

lemma outstanding_later: "t \<le> t' \<Longrightarrow> outstanding_of view r t c p = None \<Longrightarrow> outstanding_of view r t' c p = None"
  using ch.expires [of t t' r c p] by auto

lemma ceiling_keeps_spent:
  assumes "td_Redis D = R" "client_ceiling D (''rl:token:'' @ cid) r = (x, r')" "sorted (t # net_times (td_RateNet D) @ [t'])"
    "outstanding_of view r t c p = None"
  shows "outstanding_of view r' t' c p = None"
proof (cases "td_RateLimit D \<and> ran_at (td_RateNet D) \<noteq> None")
  case False
  then have "r' = r"
    using assms(2) by (cases "td_RateNet D") (auto simp: client_ceiling_def AllowClient_def run_script_def split: if_splits)
  moreover have "t \<le> t'" using assms(3) by simp
  ultimately show ?thesis using outstanding_later [of t t' r c p] assms(4) by simp
next
  case True
  then obtain u where u: "ran_at (td_RateNet D) = Some u" "t \<le> u" "u \<le> t'" using assms(3) by (auto simp: net_times_def)
  obtain n r'' where run: "clientRateScript R u (''rl:token:'' @ cid) 60 r = (n, r'')" by fastforce
  have "r' = r''"
    using True u(1) run assms(1,2)
    by (cases "td_RateNet D")
      (auto simp: client_ceiling_def AllowClient_def run_script_def tokenRateWindow_def whole_seconds_def
        split: if_splits option.splits)
  moreover have "challenge_key c p \<noteq> ''rl:token:'' @ cid" by (simp add: challenge_key_def)
  ultimately have "view r' u (challenge_key c p) = view r u (challenge_key c p)"
    by (cases rule: clientRateScript_cases [OF _ run]) auto
  then have "outstanding_of view r' u c p = None"
    using outstanding_later [OF u(2) assms(4)] by (simp add: outstanding_of_def)
  then show ?thesis using outstanding_later u(3) by blast
qed

lemma assign_tier_spends:
  assumes "td_Redis D = R" "td_ChallengeNet D = Answered t" "t_Challenge req \<noteq> []" "assign_tier D req r = (x, r')"
  shows "outstanding_of view r' t (t_ClientId req) (t_Platform req) = None"
proof -
  obtain ok r'' where run: "Consume R (Answered t) (t_ClientId req) (t_Platform req) (t_Challenge req) r = (ok, r'')" by fastforce
  moreover have "r'' = r'"
    using run assms assign_tier_cases(1) [of D req r "fst x" "snd x" r'] by simp
  ultimately show ?thesis using ch.consumes [OF run assms(3)] by simp
qed

lemma assign_tier_spent:
  assumes "td_Redis D = R" "assign_tier D req r = ((s, tier), r')"
    "\<And>t. td_ChallengeNet D = Answered t \<Longrightarrow> outstanding_of view r t (t_ClientId req) (t_Platform req) = None"
  shows "tier = 1"
proof -
  have "\<not> fst (Consume R (td_ChallengeNet D) (t_ClientId req) (t_Platform req) (t_Challenge req) r)"
  proof
    assume "fst (Consume R (td_ChallengeNet D) (t_ClientId req) (t_Platform req) (t_Challenge req) r)"
    then have "Consume R (td_ChallengeNet D) (t_ClientId req) (t_Platform req) (t_Challenge req) r =
        (True, snd (Consume R (td_ChallengeNet D) (t_ClientId req) (t_Platform req) (t_Challenge req) r))"
      by (simp add: prod_eq_iff)
    then show False by (rule ch.consume_ok) (use assms(3) in auto)
  qed
  with assign_tier_cases(2) [OF assms(2)] assms(1) show ?thesis by simp
qed

end

text \<open>
  A captured exchange cannot be replayed for a privileged token: after one successful exchange whose
  challenge round trip was answered, a second exchange for the same client and platform, with the same
  or any other challenge and attestation, and no new challenge issued in between, still succeeds or
  fails like any other, but what it mints is tier 1.
\<close>

lemma replayed_exchange_gets_tier_1:
  assumes "redis_server (td_Redis D) view" "td_Redis E = td_Redis D"
    and "NewToken D rq now w = (rs, w')" "rs_Code rs = 200" "td_ChallengeNet D = Answered t"
    and "NewToken E rq2 now2 w' = (rs2, w2)" "rs_Code rs2 = 200"
    and "readBody (td_gzip D) rq = Inr b1" "td_Unmarshal D b1 = Some req" "t_Challenge req \<noteq> []"
    and "readBody (td_gzip E) rq2 = Inr b2" "td_Unmarshal E b2 = Some req2"
    and "t_ClientId req2 = t_ClientId req" "t_Platform req2 = t_Platform req"
    and "sorted (t # net_times (td_RateNet E) @ net_times (td_ChallengeNet E))"
  shows "\<exists>tid i tok n out. Mint (td_Signer E) (td_Minter E) \<lparr>c_TenantID = tid, c_InstallID = i,
      c_Scope = ScopeWriteEvents, c_TrustTier = 1\<rparr> now2 = Inr (tok, n) \<and>
    td_Marshal E \<lparr>tr_AccessToken = tok, tr_ExpiresIn = n, tr_TrustTier = 1\<rparr> = Some out \<and> rs_Body rs2 = RawBody out"
proof -
  from assms(3,4) obtain r1 x where "assign_tier D req r1 = (x, tw_redis w')"
    using assms(8,9) by (elim NewToken_200) auto
  then have spent: "outstanding_of view (tw_redis w') t (t_ClientId req) (t_Platform req) = None"
    by (rule redis_server.assign_tier_spends [OF assms(1) refl assms(5,10)])
  from assms(6,7) show ?thesis
  proof (rule NewToken_200)
    fix body and req' :: TokenRequest and tid r1 subject tier i tok n out
    assume req': "readBody (td_gzip E) rq2 = Inr body" "td_Unmarshal E body = Some req'"
      and ce: "client_ceiling E (''rl:token:'' @ t_ClientId req') (tw_redis w') = (None, r1)"
      and ti: "assign_tier E req' r1 = ((subject, tier), tw_redis w2)"
      and rest: "Mint (td_Signer E) (td_Minter E) \<lparr>c_TenantID = tid, c_InstallID = i, c_Scope = ScopeWriteEvents,
           c_TrustTier = tier\<rparr> now2 = Inr (tok, n)"
        "td_Marshal E \<lparr>tr_AccessToken = tok, tr_ExpiresIn = n, tr_TrustTier = ucast tier\<rparr> = Some out"
        "rs_Body rs2 = RawBody out"
    have eq: "req' = req2" using req' assms(11,12) by simp
    have "tier = 1"
    proof (rule redis_server.assign_tier_spent [OF assms(1,2) ti])
      fix u assume "td_ChallengeNet E = Answered u"
      then have "sorted (t # net_times (td_RateNet E) @ [u])" using assms(15) by (simp add: net_times_def)
      from redis_server.ceiling_keeps_spent [OF assms(1,2) ce this spent]
      show "outstanding_of view r1 u (t_ClientId req') (t_Platform req') = None" by (simp add: eq assms(13,14))
    qed
    with rest show ?thesis by auto
  qed
qed

text \<open>
  C37. A failed exchange costs the control plane nothing: an exchange that is refused (400, 401), throttled
  (429) or ends before an install was asked for leaves the installs as they were, a 400 or 401 also the
  Redis keyspace; and an unknown or revoked client id never reaches the challenge store, the rate
  counter or the install table.
\<close>

theorem failed_exchange_changes_nothing:
  assumes "NewToken D rq now w = (rs, w')"
  shows "rs_Code rs \<in> {200, 400, 401, 429, 500, 503} \<and> (rs_Code rs \<in> {400, 401} \<longrightarrow> w' = w) \<and>
    (rs_Code rs = 429 \<longrightarrow> tw_db w' = tw_db w) \<and>
    (\<forall>body req. readBody (td_gzip D) rq = Inr body \<and> td_Unmarshal D body = Some req \<and>
       td_ResolveTenant D (t_ClientId req) = None \<longrightarrow> rs_Code rs = 401 \<and> w' = w)"
proof -
  have unknown: "rs_Code rs = 401 \<and> w' = w" if "readBody (td_gzip D) rq = Inr body" "td_Unmarshal D body = Some req"
      "td_ResolveTenant D (t_ClientId req) = None" for body and req :: TokenRequest
    using assms that by (auto simp: NewToken_def)
  show ?thesis
    using assms
  proof (cases rule: NewToken_cases)
    case (exchanged body req tid r1 subject tier r2 res db')
    then have "rs_Code rs \<in> {200, 500, 503}" using mint_for_code [of D tid _ tier now] by (cases res) auto
    with exchanged unknown show ?thesis by auto
  qed (use unknown in auto)
qed

theorem failed_exchange_changes_nothing_witness:
  "\<exists>rs w'. NewToken (sample_token_deps\<lparr>td_ResolveTenant := (\<lambda>_. None)\<rparr>) post 0 \<lparr>tw_redis = one_challenge, tw_db = sample_db\<rparr> =
     (rs, w') \<and> rs_Code rs = 401 \<and> w' = \<lparr>tw_redis = one_challenge, tw_db = sample_db\<rparr>"
proof -
  let ?D = "sample_token_deps\<lparr>td_ResolveTenant := (\<lambda>_. None)\<rparr>"
  obtain rs w' where run: "NewToken ?D post 0 \<lparr>tw_redis = one_challenge, tw_db = sample_db\<rparr> = (rs, w')" by fastforce
  have "rs_Code rs = 401 \<and> w' = \<lparr>tw_redis = one_challenge, tw_db = sample_db\<rparr>"
    using failed_exchange_changes_nothing [OF run] by (simp add: post_body sample_token_deps_def)
  with run show ?thesis by blast
qed

end
