(* ===== verification/Pg_Migrate.thy ===== *)
theory Pg_Migrate
  imports Control_Plane "HOL-Library.List_Lexorder" "HOL-Library.Char_ord"
begin

text \<open>
  \<open>pkg/controlplane/migrate.go\<close>: the transactional migration runner. The directory, the SQL of a file
  and which statements fail are parameters; a migration body is whatever it does to the schema
  (\<open>ms_Apply\<close>, \<open>None\<close> when a statement of it fails). The advisory lock serialises the runs of
  concurrent replicas, so a fleet's start is a sequence of runs.
\<close>

section \<open>Migration files\<close>

record dir_entry =
  de_Name :: string
  de_IsDir :: bool

record migration_fs =
  fs_ReadDir :: "dir_entry list option"
  fs_ReadFile :: "string \<Rightarrow> string option"

definition sql_names :: "dir_entry list \<Rightarrow> string list" where
  "sql_names entries = sort (map de_Name (filter (\<lambda>e. \<not> de_IsDir e \<and> HasSuffix (de_Name e) ''.sql'') entries))"

section \<open>The runner\<close>

datatype migrate_error =
    AcquireConn | AcquireLock | CreateLedger | ReadMigrations | ReadLedger
  | ReadFileErr string | BeginErr string | CheckErr string | ApplyErr string | RecordErr string | CommitErr string

record 's migrate_server =
  ms_Fails :: "migrate_error \<Rightarrow> bool"
  ms_Apply :: "string \<Rightarrow> 's \<Rightarrow> 's option"
  ms_Commit :: "string \<Rightarrow> pg_outcome"

record 's migrate_state =
  mg_schema :: 's
  mg_ledger :: "string list"

text \<open>One iteration of the loop: an error, or on to the next file.\<close>

definition migrate_file :: "migration_fs \<Rightarrow> 's migrate_server \<Rightarrow> string \<Rightarrow> 's migrate_state \<Rightarrow>
    migrate_error option \<times> 's migrate_state" where
  "migrate_file F S name st = (case fs_ReadFile F name of
      None \<Rightarrow> (Some (ReadFileErr name), st)
    | Some body \<Rightarrow>
        if ms_Fails S (BeginErr name) then (Some (BeginErr name), st)
        else if ms_Fails S (CheckErr name) then (Some (CheckErr name), st)
        else if name \<in> set (mg_ledger st) then (None, st)
        else case ms_Apply S body (mg_schema st) of
          None \<Rightarrow> (Some (ApplyErr name), st)
        | Some schema' \<Rightarrow>
            if ms_Fails S (RecordErr name) then (Some (RecordErr name), st)
            else let st' = \<lparr>mg_schema = schema', mg_ledger = mg_ledger st @ [name]\<rparr>
                 in case ms_Commit S name of
                      Executed \<Rightarrow> (None, st')
                    | ReplyLost \<Rightarrow> (Some (CommitErr name), st')
                    | NotExecuted \<Rightarrow> (Some (CommitErr name), st))"

fun migrate_files :: "migration_fs \<Rightarrow> 's migrate_server \<Rightarrow> string list \<Rightarrow> 's migrate_state \<Rightarrow>
    migrate_error option \<times> 's migrate_state" where
  "migrate_files F S [] st = (None, st)"
| "migrate_files F S (name # names) st = (case migrate_file F S name st of
      (Some err, st') \<Rightarrow> (Some err, st')
    | (None, st') \<Rightarrow> migrate_files F S names st')"

definition Migrate :: "migration_fs \<Rightarrow> 's migrate_server \<Rightarrow> 's migrate_state \<Rightarrow>
    migrate_error option \<times> 's migrate_state" where
  "Migrate F S st =
     (if ms_Fails S AcquireConn then (Some AcquireConn, st)
      else if ms_Fails S AcquireLock then (Some AcquireLock, st)
      else if ms_Fails S CreateLedger then (Some CreateLedger, st)
      else case fs_ReadDir F of
        None \<Rightarrow> (Some ReadMigrations, st)
      | Some entries \<Rightarrow> migrate_files F S (sql_names entries) st)"

section \<open>The schema is what the ledger says\<close>

text \<open>The reference: the recorded files, applied one after another to the schema \<open>s\<close>.\<close>

fun replay :: "migration_fs \<Rightarrow> (string \<Rightarrow> 's \<Rightarrow> 's option) \<Rightarrow> string list \<Rightarrow> 's \<Rightarrow> 's option" where
  "replay F app [] s = Some s"
| "replay F app (name # names) s = (case fs_ReadFile F name of
      None \<Rightarrow> None
    | Some body \<Rightarrow> (case app body s of None \<Rightarrow> None | Some s' \<Rightarrow> replay F app names s'))"

definition ledger_inv :: "migration_fs \<Rightarrow> (string \<Rightarrow> 's \<Rightarrow> 's option) \<Rightarrow> 's \<Rightarrow> 's migrate_state \<Rightarrow> bool" where
  "ledger_inv F app s0 st \<longleftrightarrow> distinct (mg_ledger st) \<and> replay F app (mg_ledger st) s0 = Some (mg_schema st)"

lemma replay_append:
  "replay F app (xs @ ys) s = (case replay F app xs s of None \<Rightarrow> None | Some s' \<Rightarrow> replay F app ys s')"
  by (induction xs arbitrary: s) (auto split: option.splits)

lemma migrate_file_cases:
  obtains (skipped) "name \<in> set (mg_ledger st)" "migrate_file F S name st = (None, st)"
  | (applied) body s' err where "name \<notin> set (mg_ledger st)" "fs_ReadFile F name = Some body"
      "ms_Apply S body (mg_schema st) = Some s'"
      "migrate_file F S name st = (err, \<lparr>mg_schema = s', mg_ledger = mg_ledger st @ [name]\<rparr>)"
  | (failed) err where "migrate_file F S name st = (Some err, st)"
proof -
  have "(name \<in> set (mg_ledger st) \<and> migrate_file F S name st = (None, st))
    \<or> (\<exists>body s' err. name \<notin> set (mg_ledger st) \<and> fs_ReadFile F name = Some body \<and>
         ms_Apply S body (mg_schema st) = Some s' \<and>
         migrate_file F S name st = (err, \<lparr>mg_schema = s', mg_ledger = mg_ledger st @ [name]\<rparr>))
    \<or> (\<exists>err. migrate_file F S name st = (Some err, st))"
    by (simp add: migrate_file_def Let_def split: option.split pg_outcome.split)
  with skipped applied failed show thesis by blast
qed

lemma migrate_file_inv:
  assumes "ledger_inv F (ms_Apply S) s0 st"
  shows "ledger_inv F (ms_Apply S) s0 (snd (migrate_file F S name st))"
  using assms by (cases rule: migrate_file_cases [of name st F S])
    (auto simp: ledger_inv_def replay_append)

lemma migrate_files_inv:
  "ledger_inv F (ms_Apply S) s0 st \<Longrightarrow> ledger_inv F (ms_Apply S) s0 (snd (migrate_files F S names st))"
proof (induction names arbitrary: st)
  case (Cons name names)
  obtain err st' where run: "migrate_file F S name st = (err, st')" by fastforce
  with migrate_file_inv [OF Cons.prems, of name] have "ledger_inv F (ms_Apply S) s0 st'" by simp
  with Cons.IH run show ?case by (cases err) simp_all
qed simp

definition pending :: "string list \<Rightarrow> string list \<Rightarrow> string list" where
  "pending ledger names = filter (\<lambda>n. n \<notin> set ledger) names"

lemma pending_snoc: "n \<notin> set names \<Longrightarrow> pending (ledger @ [n]) names = pending ledger names"
  by (auto simp: pending_def intro: filter_cong)

lemma migrate_files_ledger:
  "distinct names \<Longrightarrow> migrate_files F S names st = (err, st') \<Longrightarrow>
     \<exists>k. mg_ledger st' = mg_ledger st @ take k (pending (mg_ledger st) names) \<and>
       (err = None \<longrightarrow> mg_ledger st' = mg_ledger st @ pending (mg_ledger st) names)"
proof (induction names arbitrary: st)
  case Nil
  then show ?case by (simp add: pending_def)
next
  case (Cons name names)
  show ?case
  proof (cases rule: migrate_file_cases [of name st F S])
    case skipped
    with Cons show ?thesis by (simp add: pending_def)
  next
    case 2: (applied body s' err')
    show ?thesis
    proof (cases err')
      case None
      with Cons.IH [of "\<lparr>mg_schema = s', mg_ledger = mg_ledger st @ [name]\<rparr>"] Cons.prems 2 obtain k where
        "mg_ledger st' = (mg_ledger st @ [name]) @ take k (pending (mg_ledger st) names) \<and>
         (err = None \<longrightarrow> mg_ledger st' = (mg_ledger st @ [name]) @ pending (mg_ledger st) names)"
        by (auto simp: pending_snoc)
      moreover have "pending (mg_ledger st) (name # names) = name # pending (mg_ledger st) names"
        using 2 by (simp add: pending_def)
      ultimately show ?thesis
        by (metis append_Cons append_Nil append_assoc take_Suc_Cons)
    next
      case (Some e)
      with Cons.prems 2 show ?thesis by (intro exI [of _ 1]) (auto simp: pending_def)
    qed
  next
    case (failed e)
    with Cons.prems show ?thesis by (intro exI [of _ 0]) auto
  qed
qed

text \<open>
  C31. The control plane's schema never holds a half-applied migration: whichever statement or commit
  fails, whichever reply is lost, a run leaves the schema that results from applying exactly the
  recorded files, each once, in the recorded order; a run records an initial part of the pending
  files in lexical order, and all of them when it reports success.
\<close>

theorem Migrate_no_partial_state:
  assumes "ledger_inv F (ms_Apply S) s0 st" "fs_ReadDir F = Some entries" "distinct (sql_names entries)"
    and "Migrate F S st = (err, st')"
  shows "ledger_inv F (ms_Apply S) s0 st' \<and>
    (\<exists>k. mg_ledger st' = mg_ledger st @ take k (pending (mg_ledger st) (sql_names entries))) \<and>
    (err = None \<longrightarrow> mg_ledger st' = mg_ledger st @ pending (mg_ledger st) (sql_names entries))"
proof (cases "migrate_files F S (sql_names entries) st = (err, st')")
  case True
  with migrate_files_ledger [OF assms(3) True] migrate_files_inv [OF assms(1), of "sql_names entries"]
  show ?thesis by auto
next
  case False
  with assms(2,4) have "st' = st \<and> err \<noteq> None" by (auto simp: Migrate_def split: if_splits)
  with assms(1) show ?thesis by (auto intro: exI [of _ 0])
qed

definition two_files :: migration_fs where
  "two_files = \<lparr>fs_ReadDir = Some [\<lparr>de_Name = ''2.sql'', de_IsDir = False\<rparr>, \<lparr>de_Name = ''1.sql'', de_IsDir = False\<rparr>,
     \<lparr>de_Name = ''a.txt'', de_IsDir = False\<rparr>], fs_ReadFile = (\<lambda>n. Some n)\<rparr>"

definition log_server :: "string list migrate_server" where
  "log_server = \<lparr>ms_Fails = (\<lambda>_. False), ms_Apply = (\<lambda>b s. Some (s @ [b])), ms_Commit = (\<lambda>_. Executed)\<rparr>"

lemma two_names: "sql_names [\<lparr>de_Name = ''2.sql'', de_IsDir = False\<rparr>, \<lparr>de_Name = ''1.sql'', de_IsDir = False\<rparr>,
     \<lparr>de_Name = ''a.txt'', de_IsDir = False\<rparr>] = [''1.sql'', ''2.sql'']"
  by (simp add: sql_names_def HasSuffix_def less_char_def less_eq_char_def)

lemma two_entries: "fs_ReadDir two_files = Some [\<lparr>de_Name = ''2.sql'', de_IsDir = False\<rparr>,
     \<lparr>de_Name = ''1.sql'', de_IsDir = False\<rparr>, \<lparr>de_Name = ''a.txt'', de_IsDir = False\<rparr>]"
  by (simp add: two_files_def)

theorem Migrate_no_partial_state_witness:
  "mg_ledger (snd (Migrate two_files log_server \<lparr>mg_schema = [], mg_ledger = []\<rparr>)) = [''1.sql'', ''2.sql'']"
proof -
  obtain err st' where run: "Migrate two_files log_server \<lparr>mg_schema = [], mg_ledger = []\<rparr> = (err, st')"
    by fastforce
  have "err = None"
    using run by (simp add: Migrate_def two_files_def two_names log_server_def migrate_file_def)
  with Migrate_no_partial_state [OF _ two_entries _ run, of "[]"] show ?thesis
    by (simp add: run ledger_inv_def two_names pending_def)
qed

lemma migrate_files_done:
  "set names \<subseteq> set (mg_ledger st) \<Longrightarrow> snd (migrate_files F S names st) = st"
proof (induction names)
  case (Cons name names)
  then have "snd (migrate_file F S name st) = st"
    by (cases rule: migrate_file_cases [of name st F S]) auto
  with Cons show ?case by (auto split: option.splits prod.splits)
qed simp

text \<open>
  Running the migrations again changes nothing: after one successful run, any later run against
  the same files, on whatever server and with whatever failures, leaves schema and ledger alone.
\<close>

lemma Migrate_rerun:
  assumes "fs_ReadDir F = Some entries" "distinct (sql_names entries)" "Migrate F S st = (None, st')"
  shows "snd (Migrate F S' st') = st'"
proof -
  have "migrate_files F S (sql_names entries) st = (None, st')"
    using assms(1,3) by (simp add: Migrate_def split: if_splits)
  from migrate_files_ledger [OF assms(2) this]
  have "set (sql_names entries) \<subseteq> set (mg_ledger st')" by (auto simp: pending_def)
  then show ?thesis using assms(1) by (simp add: Migrate_def migrate_files_done)
qed

end
