(* ===== verification/Ch_Migrate.thy ===== *)
theory Ch_Migrate
  imports Pg_Migrate Clickhouse
begin

text \<open>
  \<open>pkg/clickhouse/migrate.go\<close>: the migration runner without transactions. A file is split at its
  semicolons, its statements run one by one, and the file is recorded only after the last one; the
  insert of that record may also succeed with its reply lost. A statement is whatever it does to the schema, and may have done part of it when it fails. The
  history variable \<open>ch_log\<close> lists the statements that succeeded, with their file.
\<close>

record 's ch_server =
  cs_Fails :: "migrate_error \<Rightarrow> bool"
  cs_Exec :: "string \<Rightarrow> 's \<Rightarrow> bool \<times> 's"
  cs_Record :: "string \<Rightarrow> pg_outcome"

record 's ch_state =
  ch_schema :: 's
  ch_ledger :: "string list"
  ch_log :: "(string \<times> string) list"

definition statements :: "string \<Rightarrow> string list" where
  "statements body = filter (\<lambda>s. s \<noteq> []) (map TrimSpace (Split (CHR '';'') body))"

fun run_statements :: "'s ch_server \<Rightarrow> string \<Rightarrow> string list \<Rightarrow> 's ch_state \<Rightarrow> bool \<times> 's ch_state" where
  "run_statements S name [] st = (True, st)"
| "run_statements S name (stmt # stmts) st = (case cs_Exec S stmt (ch_schema st) of
      (False, s') \<Rightarrow> (False, st\<lparr>ch_schema := s'\<rparr>)
    | (True, s') \<Rightarrow> run_statements S name stmts (st\<lparr>ch_schema := s', ch_log := ch_log st @ [(name, stmt)]\<rparr>))"

definition appliedMigrations :: "'s ch_server \<Rightarrow> 's ch_state \<Rightarrow> (string \<Rightarrow> bool) option" where
  "appliedMigrations S st = (if cs_Fails S ReadLedger then None else Some (\<lambda>name. name \<in> set (ch_ledger st)))"

fun ch_migrate_files :: "migration_fs \<Rightarrow> 's ch_server \<Rightarrow> (string \<Rightarrow> bool) \<Rightarrow> string list \<Rightarrow> 's ch_state \<Rightarrow>
    migrate_error option \<times> 's ch_state" where
  "ch_migrate_files F S applied [] st = (None, st)"
| "ch_migrate_files F S applied (name # names) st =
     (if applied name then ch_migrate_files F S applied names st
      else case fs_ReadFile F name of
        None \<Rightarrow> (Some (ReadFileErr name), st)
      | Some body \<Rightarrow> (case run_statements S name (statements body) st of
          (False, st') \<Rightarrow> (Some (ApplyErr name), st')
        | (True, st') \<Rightarrow>
            (let st'' = st'\<lparr>ch_ledger := ch_ledger st' @ [name]\<rparr> in
             case cs_Record S name of
               Executed \<Rightarrow> ch_migrate_files F S applied names st''
             | ReplyLost \<Rightarrow> (Some (RecordErr name), st'')
             | NotExecuted \<Rightarrow> (Some (RecordErr name), st'))))"

definition ch_Migrate :: "migration_fs \<Rightarrow> 's ch_server \<Rightarrow> 's ch_state \<Rightarrow> migrate_error option \<times> 's ch_state" where
  "ch_Migrate F S st =
     (if cs_Fails S CreateLedger then (Some CreateLedger, st)
      else case appliedMigrations S st of
        None \<Rightarrow> (Some ReadLedger, st)
      | Some applied \<Rightarrow> (case fs_ReadDir F of
          None \<Rightarrow> (Some ReadMigrations, st)
        | Some entries \<Rightarrow> ch_migrate_files F S applied (sql_names entries) st))"

section \<open>Recorded means executed\<close>

definition work_of :: "migration_fs \<Rightarrow> string \<Rightarrow> (string \<times> string) list" where
  "work_of F name = (case fs_ReadFile F name of None \<Rightarrow> [] | Some body \<Rightarrow> map (Pair name) (statements body))"

lemma run_statements_log:
  "run_statements S name stmts st = (ok, st') \<Longrightarrow> ch_ledger st' = ch_ledger st \<and>
     (\<exists>k. ch_log st' = ch_log st @ take k (map (Pair name) stmts)) \<and>
     (ok \<longrightarrow> ch_log st' = ch_log st @ map (Pair name) stmts)"
proof (induction stmts arbitrary: st)
  case (Cons stmt stmts)
  obtain b s' where ex: "cs_Exec S stmt (ch_schema st) = (b, s')" by fastforce
  show ?case
  proof (cases b)
    case True
    with Cons.IH [of "st\<lparr>ch_schema := s', ch_log := ch_log st @ [(name, stmt)]\<rparr>"] Cons.prems ex obtain k where
      "ch_ledger st' = ch_ledger st \<and>
       ch_log st' = (ch_log st @ [(name, stmt)]) @ take k (map (Pair name) stmts) \<and>
       (ok \<longrightarrow> ch_log st' = (ch_log st @ [(name, stmt)]) @ map (Pair name) stmts)" by auto
    then show ?thesis
      by (metis append_Cons append_Nil append_assoc list.simps(9) take_Suc_Cons)
  next
    case False
    with Cons.prems ex show ?thesis by (auto intro: exI [of _ 0])
  qed
qed simp

text \<open>
  What a run over the files \<open>todo\<close> adds: the first \<open>k\<close> are recorded, all their statements ran, in
  order, and of the next file only an initial part did.
\<close>

definition ch_progress :: "migration_fs \<Rightarrow> string list \<Rightarrow> 's ch_state \<Rightarrow> migrate_error option \<Rightarrow> 's ch_state \<Rightarrow> bool" where
  "ch_progress F todo st err st' \<longleftrightarrow> (\<exists>k part. ch_ledger st' = ch_ledger st @ take k todo \<and>
      ch_log st' = ch_log st @ concat (map (work_of F) (take k todo)) @ part \<and>
      (err = None \<longrightarrow> part = [] \<and> take k todo = todo) \<and>
      (part \<noteq> [] \<longrightarrow> k < length todo \<and> (\<exists>j. part = take j (work_of F (todo ! k)))))"

lemma ch_progress_Cons:
  assumes "ch_progress F todo st1 err st'" "ch_ledger st1 = ch_ledger st @ [name]"
    "ch_log st1 = ch_log st @ work_of F name"
  shows "ch_progress F (name # todo) st err st'"
proof -
  obtain k part where "ch_ledger st' = ch_ledger st1 @ take k todo"
    "ch_log st' = ch_log st1 @ concat (map (work_of F) (take k todo)) @ part"
    "err = None \<longrightarrow> part = [] \<and> take k todo = todo"
    "part \<noteq> [] \<longrightarrow> k < length todo \<and> (\<exists>j. part = take j (work_of F (todo ! k)))"
    using assms(1) unfolding ch_progress_def by blast
  then show ?thesis
    unfolding ch_progress_def using assms(2,3) by (intro exI [of _ "Suc k"] exI [of _ part]) auto
qed

lemma ch_progress_stop:
  assumes "ch_ledger st' = ch_ledger st" "ch_log st' = ch_log st @ take j (work_of F name)"
  shows "ch_progress F (name # todo) st (Some err) st'"
  unfolding ch_progress_def using assms by (intro exI [of _ 0] exI [of _ "take j (work_of F name)"]) auto

lemma ch_migrate_files_progress:
  "ch_migrate_files F S applied names st = (err, st') \<Longrightarrow>
   ch_progress F (filter (\<lambda>n. \<not> applied n) names) st err st'"
proof (induction names arbitrary: st)
  case Nil
  then show ?case by (simp add: ch_progress_def)
next
  case (Cons name names)
  show ?case
  proof (cases "applied name")
    case True
    with Cons show ?thesis by simp
  next
    case new: False
    show ?thesis
    proof (cases "fs_ReadFile F name")
      case None
      with Cons.prems new ch_progress_stop [of st' st 0] show ?thesis by auto
    next
      case (Some body)
      then have w: "work_of F name = map (Pair name) (statements body)" by (simp add: work_of_def)
      obtain ok st1 where run: "run_statements S name (statements body) st = (ok, st1)" by fastforce
      note log = run_statements_log [OF run]
      show ?thesis
      proof (cases "ok \<and> cs_Record S name \<noteq> NotExecuted")
        case True
        let ?st = "st1\<lparr>ch_ledger := ch_ledger st1 @ [name]\<rparr>"
        have "ch_progress F (filter (\<lambda>n. \<not> applied n) names) ?st err st'"
        proof (cases "cs_Record S name")
          case Executed
          with Cons.prems new Some run True Cons.IH [of ?st] show ?thesis by simp
        next
          case ReplyLost
          with Cons.prems new Some run True have "st' = ?st" "err = Some (RecordErr name)" by auto
          then show ?thesis by (auto simp: ch_progress_def intro!: exI [of _ 0])
        qed (use True in simp)
        from ch_progress_Cons [OF this, of st name] log True w new show ?thesis by simp
      next
        case False
        with Cons.prems new Some run have "st' = st1" "\<exists>e. err = Some e"
          by (auto simp: Let_def split: if_splits bool.splits pg_outcome.splits)
        with log ch_progress_stop [of st1 st _ F name] w new show ?thesis by auto
      qed
    qed
  qed
qed

text \<open>
  C32. A ClickHouse migration file is recorded only after every one of its statements succeeded, in the
  order of the file: a run records the first \<open>k\<close> pending files in lexical order and has executed exactly
  their statements, plus an initial part of the next file's when it stopped there; a run that reports
  success has recorded and executed all pending files. Files recorded before are not touched again.
\<close>

theorem ch_Migrate_records_after_execution:
  assumes "fs_ReadDir F = Some entries" "ch_Migrate F S st = (err, st')"
  shows "ch_progress F (pending (ch_ledger st) (sql_names entries)) st err st'"
proof (cases "ch_migrate_files F S (\<lambda>name. name \<in> set (ch_ledger st)) (sql_names entries) st = (err, st')")
  case True
  from ch_migrate_files_progress [OF this] show ?thesis by (simp add: pending_def)
next
  case False
  with assms have "st' = st \<and> err \<noteq> None"
    by (auto simp: ch_Migrate_def appliedMigrations_def split: if_splits)
  then show ?thesis by (auto simp: ch_progress_def intro!: exI [of _ 0])
qed

definition ch_files :: migration_fs where
  "ch_files = two_files\<lparr>fs_ReadFile := (\<lambda>n. Some (if n = ''1.sql'' then ''a;b'' else ''c;''))\<rparr>"

definition failing_server :: "nat ch_server" where
  "failing_server = \<lparr>cs_Fails = (\<lambda>_. False), cs_Exec = (\<lambda>stmt n. (stmt \<noteq> ''c'', n + 1)),
     cs_Record = (\<lambda>_. Executed)\<rparr>"

lemma ch_statements: "statements ''a;b'' = [''a'', ''b'']" "statements ''c;'' = [''c'']"
proof -
  have "TrimSpace ''a'' = ''a''" "TrimSpace ''b'' = ''b''" "TrimSpace ''c'' = ''c''"
    by (rule TrimSpace_plain; simp add: plain_char_def ascii_space_def)+
  then show "statements ''a;b'' = [''a'', ''b'']" "statements ''c;'' = [''c'']"
    by (simp_all add: statements_def)
qed

theorem ch_Migrate_records_after_execution_witness:
  "\<exists>st'. ch_Migrate ch_files failing_server \<lparr>ch_schema = 0, ch_ledger = [], ch_log = []\<rparr> = (Some (ApplyErr ''2.sql''), st')
     \<and> ch_ledger st' = [''1.sql''] \<and> (\<exists>k. ch_ledger st' = take k [''1.sql'', ''2.sql''])"
proof -
  have dir: "fs_ReadDir ch_files = fs_ReadDir two_files" by (simp add: ch_files_def)
  obtain st' where run: "ch_Migrate ch_files failing_server \<lparr>ch_schema = 0, ch_ledger = [], ch_log = []\<rparr> =
      (Some (ApplyErr ''2.sql''), st')" and led: "ch_ledger st' = [''1.sql'']"
    unfolding ch_Migrate_def dir two_entries
    by (simp add: two_names appliedMigrations_def failing_server_def ch_files_def ch_statements)
  from ch_Migrate_records_after_execution [OF dir [unfolded two_entries] run] run led show ?thesis
    by (auto simp: two_names pending_def ch_progress_def)
qed

end
