(* ===== verification/Connections.thy ===== *)
theory Connections
  imports Clickhouse
begin

text \<open>
  \<open>pkg/clickhouse/pool.go\<close> and \<open>Open\<close> of \<open>pkg/controlplane/migrate.go\<close>: opening the two connection pools. The
  drivers are parameters: whether they hand back a pool, and whether its first ping is answered. The
  state is the list of pools that were opened and not closed. Both functions keep one contract, the
  locale \<open>pool_opener\<close>: a start that fails leaves no pool behind.
\<close>

section \<open>ClickHouse\<close>

record Config =
  cg_Addrs :: "string list"
  cg_Database :: string
  cg_Username :: string
  cg_Password :: string

record ch_Options =
  op_Addr :: "string list"
  op_Database :: string
  op_Username :: string
  op_Password :: string
  op_Settings :: "(string \<times> int) list"
  op_DialTimeout :: duration
  op_MaxOpenConns :: int
  op_MaxIdleConns :: int
  op_ConnMaxLifetime :: duration
  op_Compression :: string

definition ch_options :: "Config \<Rightarrow> ch_Options" where
  "ch_options cfg = \<lparr>op_Addr = cg_Addrs cfg, op_Database = cg_Database cfg, op_Username = cg_Username cfg,
     op_Password = cg_Password cfg,
     op_Settings = [(''async_insert'', 1), (''wait_for_async_insert'', 1), (''async_insert_busy_timeout_ms'', 1000),
       (''async_insert_max_data_size'', 10000000)],
     op_DialTimeout = 5 * Second, op_MaxOpenConns = 32, op_MaxIdleConns = 8, op_ConnMaxLifetime = 10 * Minute,
     op_Compression = ''lz4''\<rparr>"

record ch_driver =
  dr_Open :: "ch_Options \<Rightarrow> ch_conn option"
  dr_Ping :: "ch_conn \<Rightarrow> bool"

datatype open_error = OpenFailed | PingFailed

definition pool_Close :: "'h \<Rightarrow> 'h list \<Rightarrow> 'h list" where
  "pool_Close h live = remove1 h live"

definition ch_Open :: "ch_driver \<Rightarrow> Config \<Rightarrow> ch_conn list \<Rightarrow> (open_error + ch_conn) \<times> ch_conn list" where
  "ch_Open V cfg live = (case dr_Open V (ch_options cfg) of
      None \<Rightarrow> (Inl OpenFailed, live)
    | Some conn \<Rightarrow>
        (let live' = conn # live in
         if \<not> dr_Ping V conn then (Inl PingFailed, pool_Close conn live') else (Inr conn, live')))"

section \<open>Postgres\<close>

record 'p pg_driver =
  pd_New :: "string \<Rightarrow> 'p option"
  pd_Ping :: "'p \<Rightarrow> bool"

definition pg_Open :: "'p pg_driver \<Rightarrow> string \<Rightarrow> 'p list \<Rightarrow> (open_error + 'p) \<times> 'p list" where
  "pg_Open V dsn live = (case pd_New V dsn of
      None \<Rightarrow> (Inl OpenFailed, live)
    | Some pool \<Rightarrow>
        (let live' = pool # live in
         if \<not> pd_Ping V pool then (Inl PingFailed, pool_Close pool live') else (Inr pool, live')))"

section \<open>The contract of an opener\<close>

text \<open>A pod that is restarted until one of its attempts succeeds.\<close>

fun start_until :: "('x \<Rightarrow> 'h list \<Rightarrow> ('e + 'h) \<times> 'h list) \<Rightarrow> 'x list \<Rightarrow> 'h list \<Rightarrow> 'h option \<times> 'h list" where
  "start_until opn [] live = (None, live)"
| "start_until opn (x # xs) live = (case opn x live of
      (Inr h, live') \<Rightarrow> (Some h, live')
    | (Inl _, live') \<Rightarrow> start_until opn xs live')"

locale pool_opener =
  fixes opn :: "'x \<Rightarrow> 'h list \<Rightarrow> ('e + 'h) \<times> 'h list"
  assumes fails_clean: "opn x live = (Inl e, live') \<Longrightarrow> live' = live"
    and opens_one: "opn x live = (Inr h, live') \<Longrightarrow> live' = h # live"
begin

lemma attempts_leak_nothing:
  "snd (start_until opn xs live) = (case fst (start_until opn xs live) of None \<Rightarrow> live | Some h \<Rightarrow> h # live)"
proof (induction xs)
  case (Cons x xs)
  show ?case
  proof (cases "opn x live")
    case (Pair r live')
    with Cons.IH fails_clean [of x live] opens_one [of x live] show ?thesis by (cases r) auto
  qed
qed simp

lemma attempts_result: "fst (start_until opn xs live) = Some h \<Longrightarrow> \<exists>x \<in> set xs. fst (opn x live) = Inr h"
proof (induction xs)
  case (Cons x xs)
  show ?case
  proof (cases "opn x live")
    case (Pair r live')
    with Cons fails_clean [of x live] show ?thesis by (cases r) auto
  qed
qed simp

end

interpretation ch_pools: pool_opener "\<lambda>(V, cfg). ch_Open V cfg"
  by unfold_locales (auto simp: ch_Open_def pool_Close_def Let_def split: option.splits if_splits prod.splits)

interpretation pg_pools: pool_opener "\<lambda>(V, dsn). pg_Open V dsn"
  by unfold_locales (auto simp: pg_Open_def pool_Close_def Let_def split: option.splits if_splits prod.splits)

section \<open>Properties\<close>

text \<open>What the server documents of the two settings: with both on, a \<open>Send\<close> waits for the flush.\<close>

definition honours_wait :: "ch_driver \<Rightarrow> bool" where
  "honours_wait V \<longleftrightarrow> (\<forall>opts conn. dr_Open V opts = Some conn \<and> map_of (op_Settings opts) ''async_insert'' = Some 1 \<and>
     map_of (op_Settings opts) ''wait_for_async_insert'' = Some 1 \<longrightarrow> waits_for_flush conn)"

lemma ch_Open_waits:
  assumes "honours_wait V" "ch_Open V cfg live = (Inr conn, live')"
  shows "waits_for_flush conn"
proof -
  have "map_of (op_Settings (ch_options cfg)) ''async_insert'' = Some 1"
    "map_of (op_Settings (ch_options cfg)) ''wait_for_async_insert'' = Some 1"
    by (simp_all add: ch_options_def)
  moreover have "dr_Open V (ch_options cfg) = Some conn"
    using assms(2) by (auto simp: ch_Open_def Let_def split: option.splits if_splits)
  ultimately show ?thesis using assms(1) unfolding honours_wait_def by blast
qed

text \<open>
  The connection the service opens is one whose acknowledgements count: however many starts failed
  before, the pool that finally opens was opened with asynchronous inserts that wait for the flush, so
  an insert through it that returns no error has stored exactly its rows; and it is the only pool left
  open, the failed starts having closed theirs.
\<close>

lemma opened_connection_acks_durable:
  assumes "\<forall>(V, cfg) \<in> set xs. honours_wait V"
    and "start_until (\<lambda>(V, cfg). ch_Open V cfg) xs live = (Some conn, live')"
    and "InsertEvents conn rows table = (None, table')"
  shows "table' = table @ rows \<and> live' = conn # live"
proof -
  obtain V cfg where "(V, cfg) \<in> set xs" "fst (ch_Open V cfg live) = Inr conn"
    using ch_pools.attempts_result [of xs live conn] assms(2) by auto
  then have "waits_for_flush conn"
    using assms(1) ch_Open_waits [of V cfg live conn] by (metis (no_types, lifting) case_prodD prod.collapse)
  with InsertEvents_ok assms(3) ch_pools.attempts_leak_nothing [of xs live] assms(2) show ?thesis by simp
qed

definition sync_driver :: ch_driver where
  "sync_driver = \<lparr>dr_Open = (\<lambda>_. Some sync_conn), dr_Ping = (\<lambda>_. True)\<rparr>"

text \<open>
  Failed starts leak no Postgres pool: after any number of attempts to open it, the pools left open
  are the ones from before plus, when an attempt succeeded, exactly the one it returned, which answered
  its ping.
\<close>

lemma pg_starts_leak_nothing:
  "case start_until (\<lambda>(V, dsn). pg_Open V dsn) xs live of
     (None, live') \<Rightarrow> live' = live
   | (Some pool, live') \<Rightarrow> live' = pool # live \<and> (\<exists>(V, dsn) \<in> set xs. pd_New V dsn = Some pool \<and> pd_Ping V pool)"
proof -
  have pinged: "pd_New V dsn = Some pool \<and> pd_Ping V pool" if "fst (pg_Open V dsn live) = Inr pool" for V dsn pool
    using that by (auto simp: pg_Open_def Let_def split: option.splits if_splits)
  show ?thesis
    using pg_pools.attempts_leak_nothing [of xs live] pg_pools.attempts_result [of xs live] pinged
    by (cases "start_until (\<lambda>(V, dsn). pg_Open V dsn) xs live") (fastforce split: option.splits)
qed

end
