(* ===== verification/Service_Http.thy ===== *)
theory Service_Http
  imports Service_Main
begin

text \<open>
  The service as a whole, one HTTP request at a time: \<open>serve\<close> matches method and path against the routes of
  \<open>main.go\<close> and runs the handler that is mounted there on the state all handlers share. What becomes of
  the round trips of a request is part of the call.
\<close>

record 'r service =
  vs_verifier :: Verifier
  vs_redis :: 'r
  vs_offsets :: session_offsets
  vs_events :: "Row list"
  vs_skew :: "(string \<times> string) list"
  vs_legacy :: "(string \<times> string) list"
  vs_db :: control_db

record 'r wiring =
  wr_signer :: jwx_signer
  wr_minter :: Minter
  wr_jwx :: jwx
  wr_jwk :: jwk_lib
  wr_redis :: "'r redis"
  wr_conn :: ch_conn
  wr_redirect :: nat

text \<open>The status of a redirect (\<open>wr_redirect\<close>) is that of the release of \<open>net/http\<close>.\<close>

fun mux_status :: "nat \<Rightarrow> mux_error \<Rightarrow> nat" where
  "mux_status redirect (Redirect p) = redirect"
| "mux_status redirect NotFound = 404"
| "mux_status redirect MethodNotAllowed = 405"

record http_call =
  hc_Method :: string
  hc_Path :: string
  hc_rq :: http_request
  hc_now :: gotime
  hc_ingest :: ingest_env
  hc_exchange :: exchange_env
  hc_jwks :: pg_outcome
  hc_Ping :: "bool \<times> bool \<times> bool"

definition batch_world :: "'r service \<Rightarrow> ('r, session_offsets) world" where
  "batch_world s = \<lparr>w_verifier = vs_verifier s, w_redis = vs_redis s, w_offsets = vs_offsets s, w_events = vs_events s,
     w_skew = vs_skew s, w_legacy = vs_legacy s\<rparr>"

definition exchange_world :: "'r service \<Rightarrow> ('r, control_db) token_world" where
  "exchange_world s = \<lparr>tw_redis = vs_redis s, tw_db = vs_db s\<rparr>"

definition serve :: "'r wiring \<Rightarrow> http_call \<Rightarrow> 'r service \<Rightarrow> nat \<times> 'r service" where
  "serve W h s =
     (let deps = tokenDeps (wr_signer W) (wr_minter W) (wr_redis W) (hc_exchange h) (vs_db s) in
      case dispatch (hc_Method h) (hc_Path h) of
        Inl err \<Rightarrow> (mux_status (wr_redirect W) err, s)
      | Inr RBatch \<Rightarrow>
          (case NewBatch (batchDeps (wr_jwx W) (wr_redis W) (wr_conn W) (hc_ingest h) (vs_db s)) (hc_rq h) (hc_now h) (batch_world s) of
             (rs, w) \<Rightarrow> (rs_Code rs, s\<lparr>vs_verifier := w_verifier w, vs_redis := w_redis w, vs_offsets := w_offsets w,
                vs_events := w_events w, vs_skew := w_skew w, vs_legacy := w_legacy w\<rparr>))
      | Inr RToken \<Rightarrow>
          (case NewToken deps (hc_rq h) (hc_now h) (exchange_world s) of
             (rs, w) \<Rightarrow> (rs_Code rs, s\<lparr>vs_redis := tw_redis w, vs_db := tw_db w\<rparr>))
      | Inr RChallenge \<Rightarrow>
          (case NewChallenge deps (hc_rq h) (exchange_world s) of
             (rs, w) \<Rightarrow> (rs_Code rs, s\<lparr>vs_redis := tw_redis w, vs_db := tw_db w\<rparr>))
      | Inr RJWKS \<Rightarrow> (fst (NewJWKS (wr_jwk W) (hc_jwks h) (vs_db s)), s)
      | Inr RHealthz \<Rightarrow> (200, s)
      | Inr RReadyz \<Rightarrow> (case hc_Ping h of (ch, pg, rd) \<Rightarrow> (fst (readyz ch pg rd), s)))"

fun serve_all :: "'r wiring \<Rightarrow> http_call list \<Rightarrow> 'r service \<Rightarrow> 'r service" where
  "serve_all W [] s = s"
| "serve_all W (h # hs) s = serve_all W hs (snd (serve W h s))"

section \<open>What each handler leaves alone\<close>

lemma NewBatch_appends:
  assumes "NewBatch D rq t w = (rs, w')"
  shows "\<exists>added. w_events w' = w_events w @ added"
proof (cases "w_events w' = w_events w")
  case False
  from assms False show ?thesis
    by (rule NewBatch_inserts [OF _ disjI1]) (metis InsertEvents_extends snd_conv)
qed simp

lemma NewChallenge_db: "tw_db (snd (NewChallenge D rq w)) = tw_db w"
  by (simp add: NewChallenge_def split: sum.splits option.splits prod.splits)

text \<open>What no request may do to the control plane: \<open>db'\<close> has the rows of \<open>db\<close> in all tables but the installs, and
  all of its install ids, still for whom they were issued.\<close>

definition control_kept :: "control_db \<Rightarrow> control_db \<Rightarrow> bool" where
  "control_kept db db' \<longleftrightarrow> db_tenants db' = db_tenants db \<and> db_client_ids db' = db_client_ids db \<and>
     db_quotas db' = db_quotas db \<and> db_signing_keys db' = db_signing_keys db \<and>
     (installs_wf db \<longrightarrow> installs_wf db') \<and> (\<forall>k i. install_of db k = Some i \<longrightarrow> install_of db' k = Some i)"

lemma control_kept_refl [simp]: "control_kept db db"
  by (simp add: control_kept_def)

lemma control_kept_trans: "control_kept a b \<Longrightarrow> control_kept b c \<Longrightarrow> control_kept a c"
  by (simp add: control_kept_def)

lemma IssueInstall_kept:
  assumes "IssueInstall rand pg tid platform subject dk tier db = (res, db')"
  shows "control_kept db db'"
proof -
  have "install_of db' k = Some i" if "install_of db k = Some i" for k i
    using installs.keeps [OF that, of "(rand, pg, tid, platform, subject, dk, tier)"] assms by (simp add: issue_install_def)
  moreover have "installs_wf db \<longrightarrow> installs_wf db'"
    using assms by (cases rule: IssueInstall_cases) (auto intro: upsert_install_wf)
  moreover have "db_tenants db' = db_tenants db \<and> db_client_ids db' = db_client_ids db \<and> db_quotas db' = db_quotas db \<and>
      db_signing_keys db' = db_signing_keys db"
    using assms by (cases rule: IssueInstall_cases) (auto simp: upsert_install_def split: option.splits if_splits)
  ultimately show ?thesis unfolding control_kept_def by blast
qed

lemma exchange_kept:
  assumes "NewToken (tokenDeps J m R e db) rq now w = (rs, w')"
  shows "control_kept (tw_db w) (tw_db w')"
  using assms
  by (cases rule: NewToken_cases) (auto simp: tokenDeps_def dest: IssueInstall_kept)

section \<open>A life of the service\<close>

text \<open>What every request keeps: the control plane as above, the stored events, and the pinned clock offsets.\<close>

definition service_kept :: "'r service \<Rightarrow> 'r service \<Rightarrow> bool" where
  "service_kept s s' \<longleftrightarrow> control_kept (vs_db s) (vs_db s') \<and> (\<exists>added. vs_events s' = vs_events s @ added) \<and>
     (\<forall>k v. offset_ms_of (vs_offsets s) k = Some v \<longrightarrow> offset_ms_of (vs_offsets s') k = Some v)"

lemma service_kept_refl [simp]: "service_kept s s"
  by (simp add: service_kept_def)

lemma service_kept_trans: "service_kept a b \<Longrightarrow> service_kept b c \<Longrightarrow> service_kept a c"
  unfolding service_kept_def by (metis append_assoc control_kept_trans)

lemma batch_kept:
  assumes "NewBatch (batchDeps X R C e db) rq t (batch_world s) = (rs, w)"
  shows "(\<exists>added. w_events w = vs_events s @ added) \<and>
    (\<forall>k v. offset_ms_of (vs_offsets s) k = Some v \<longrightarrow> offset_ms_of (w_offsets w) k = Some v)"
  using NewBatch_appends [OF assms] pg_store.NewBatch_keeps_offsets [OF _ assms]
  by (simp add: batch_world_def batchDeps_def)

lemma serve_kept: "service_kept s (snd (serve W h s))"
proof (cases "dispatch (hc_Method h) (hc_Path h)")
  case (Inr rt)
  let ?deps = "tokenDeps (wr_signer W) (wr_minter W) (wr_redis W) (hc_exchange h) (vs_db s)"
  show ?thesis
  proof (cases rt)
    case RBatch
    obtain rs w where run: "NewBatch (batchDeps (wr_jwx W) (wr_redis W) (wr_conn W) (hc_ingest h) (vs_db s)) (hc_rq h) (hc_now h)
        (batch_world s) = (rs, w)" by fastforce
    with batch_kept [OF run] Inr RBatch show ?thesis by (simp add: serve_def service_kept_def)
  next
    case RToken
    obtain rs w where run: "NewToken ?deps (hc_rq h) (hc_now h) (exchange_world s) = (rs, w)" by fastforce
    with exchange_kept [OF run] Inr RToken show ?thesis by (simp add: serve_def service_kept_def exchange_world_def)
  next
    case RChallenge
    obtain rs w where run: "NewChallenge ?deps (hc_rq h) (exchange_world s) = (rs, w)" by fastforce
    with NewChallenge_db [of ?deps "hc_rq h" "exchange_world s"] Inr RChallenge show ?thesis
      by (simp add: serve_def service_kept_def exchange_world_def)
  qed (simp_all add: serve_def Inr split: prod.splits)
qed (simp add: serve_def)

lemma serve_all_kept: "service_kept s (serve_all W hs s)"
proof (induction hs arbitrary: s)
  case (Cons h hs)
  show ?case using service_kept_trans [OF serve_kept Cons.IH] by simp
qed simp

lemma dispatch_not_post:
  assumes "hc_Method h \<noteq> ''POST''"
  shows "dispatch (hc_Method h) (hc_Path h) \<notin> {Inr RBatch, Inr RToken, Inr RChallenge}"
  using assms by (auto simp: dispatch_def routes_def split: if_splits)

lemma serve_not_post:
  assumes "hc_Method h \<noteq> ''POST''"
  shows "snd (serve W h s) = s"
  using dispatch_not_post [OF assms]
  by (auto simp: serve_def Let_def split: sum.splits route.splits prod.splits)

text \<open>
  C24. The service confines its effects, over any sequence of requests to any of its routes, with any failures
  on the way: it never touches tenants, client ids, quotas or signing keys; the install table keeps its
  uniqueness constraints and every install id stays with the tenant and device it was issued for; the
  events table only grows; a clock offset that was pinned for a session stays. Requests that are not
  \<open>POST\<close> change nothing at all.
\<close>

theorem service_confines_effects:
  assumes "serve_all W hs s = after"
  shows "db_tenants (vs_db after) = db_tenants (vs_db s) \<and> db_client_ids (vs_db after) = db_client_ids (vs_db s) \<and>
    db_quotas (vs_db after) = db_quotas (vs_db s) \<and> db_signing_keys (vs_db after) = db_signing_keys (vs_db s) \<and>
    (installs_wf (vs_db s) \<longrightarrow> installs_wf (vs_db after)) \<and>
    (\<forall>k i. install_of (vs_db s) k = Some i \<longrightarrow> install_of (vs_db after) k = Some i) \<and>
    (\<exists>added. vs_events after = vs_events s @ added) \<and>
    (\<forall>k v. offset_ms_of (vs_offsets s) k = Some v \<longrightarrow> offset_ms_of (vs_offsets after) k = Some v) \<and>
    ((\<forall>h \<in> set hs. hc_Method h \<noteq> ''POST'') \<longrightarrow> after = s)"
proof -
  have "serve_all W hs s = s" if "\<forall>h \<in> set hs. hc_Method h \<noteq> ''POST''"
    using that by (induction hs) (simp_all add: serve_not_post)
  with serve_all_kept [of s W hs] show ?thesis
    unfolding assms [symmetric] service_kept_def control_kept_def by blast
qed

definition sample_wiring :: "keyspace wiring" where
  "sample_wiring = \<lparr>wr_signer = sample_signer, wr_minter = sample_minter, wr_jwx = sample_jwx, wr_jwk = plain_jwk_lib,
     wr_redis = mem_redis, wr_conn = sync_conn, wr_redirect = 307\<rparr>"

definition sample_service :: "keyspace service" where
  "sample_service = \<lparr>vs_verifier = NewVerifier [] [] [], vs_redis = Map.empty, vs_offsets = Map.empty, vs_events = [sample_row],
     vs_skew = [], vs_legacy = [], vs_db = sample_db\<rparr>"

definition sample_call :: "string \<Rightarrow> string \<Rightarrow> http_call" where
  "sample_call meth path = \<lparr>hc_Method = meth, hc_Path = path, hc_rq = post, hc_now = 0,
     hc_ingest = \<lparr>ie_pg_legacy = Executed, ie_pg_limits = Executed, ie_offset_net = (\<lambda>_. Executed), ie_pg_now = (\<lambda>_. 0), ie_quota_net = Answered 0,
       ie_gzip = (\<lambda>_. None), ie_uuid_Parse = Some, ie_Unmarshal = (\<lambda>_. None), ie_Marshal = (\<lambda>_. None)\<rparr>,
     hc_exchange = \<lparr>xe_pg_resolve = Executed, xe_pg_issue = ReplyLost, xe_rand_install = Some ''A'', xe_rand_challenge = None,
       xe_rate_net = Refused, xe_challenge_net = Refused, xe_gzip = (\<lambda>_. None),
       xe_Unmarshal = (\<lambda>_. Some \<lparr>t_ClientId = ''c1'', t_Platform = ''ios'', t_Attestation = [], t_Challenge = [], t_DeviceHint = ''h''\<rparr>),
       xe_Marshal = (\<lambda>r. Some (tr_AccessToken r))\<rparr>,
     hc_jwks = Executed, hc_Ping = (True, True, False)\<rparr>"

theorem service_confines_effects_witness:
  "\<exists>after. serve_all sample_wiring [sample_call ''POST'' ''/v1/auth/token'', sample_call ''POST'' ''/v1/batch'',
       sample_call ''GET'' ''/readyz''] sample_service = after \<and>
     installs_wf (vs_db after) \<and> db_client_ids (vs_db after) = db_client_ids sample_db \<and> (\<exists>added. vs_events after = sample_row # added)"
proof -
  obtain after where run: "serve_all sample_wiring [sample_call ''POST'' ''/v1/auth/token'', sample_call ''POST'' ''/v1/batch'',
       sample_call ''GET'' ''/readyz''] sample_service = after" by blast
  have "installs_wf (vs_db sample_service)" by (simp add: installs_wf_def sample_db_def sample_service_def)
  with service_confines_effects [OF run] run show ?thesis by (auto simp: sample_service_def)
qed

end
