(* ===== verification/Schema.thy ===== *)
theory Schema
  imports Service_Http
begin

text \<open>
  The constraints the migrations of the control plane declare (\<open>pkg/controlplane/sql/0001_control_plane.sql\<close>), table by
  table, as one well-formedness predicate on \<open>control_db\<close>, and type soundness for it: everything the
  service does keeps a well-formed database well-formed, and on a well-formed database the queries of
  \<open>store.go\<close> have at most one row to choose from and answer values of the kinds their callers expect.
\<close>

section \<open>The declared constraints\<close>

definition tenant_ids :: "control_db \<Rightarrow> string list" where
  "tenant_ids db = map tn_tenant_id (db_tenants db)"

text \<open>The values a signed column of so many bits can hold.\<close>

definition signed_column :: "nat \<Rightarrow> int \<Rightarrow> bool" where
  "signed_column bits x \<longleftrightarrow> - (2 ^ (bits - 1)) \<le> x \<and> x < 2 ^ (bits - 1)"

definition tenants_ok :: "control_db \<Rightarrow> bool" where
  "tenants_ok db \<longleftrightarrow> distinct (tenant_ids db) \<and>
     list_all (\<lambda>t. tn_legacy_key_mode t \<in> {''dual_accept'', ''deprecating'', ''cutoff''}) (db_tenants db)"

definition client_ids_ok :: "control_db \<Rightarrow> bool" where
  "client_ids_ok db \<longleftrightarrow> distinct (map cl_client_id (db_client_ids db)) \<and>
     list_all (\<lambda>c. cl_tenant_id c \<in> set (tenant_ids db)) (db_client_ids db) \<and>
     distinct (List.map_filter cl_legacy_key_hash (db_client_ids db))"

definition signing_keys_ok :: "control_db \<Rightarrow> bool" where
  "signing_keys_ok db \<longleftrightarrow> distinct (map sg_kid (db_signing_keys db)) \<and> length (filter is_active (db_signing_keys db)) \<le> 1"

definition quotas_ok :: "control_db \<Rightarrow> bool" where
  "quotas_ok db \<longleftrightarrow> distinct (map qt_tenant_id (db_quotas db)) \<and>
     list_all (\<lambda>q. qt_tenant_id q \<in> set (tenant_ids db) \<and> signed_column 64 (qt_daily_events q) \<and>
       list_all (signed_column 32) [qt_rps_tier0 q, qt_rps_tier1 q, qt_rps_legacy q]) (db_quotas db)"

text \<open>
  The two partial unique indexes: attested rows by subject, the others by device key. A row of one kind
  never conflicts with a row of the other.
\<close>

definition installs_ok :: "control_db \<Rightarrow> bool" where
  "installs_ok db \<longleftrightarrow> distinct (map in_install_id (db_installs db)) \<and>
     list_all (\<lambda>i. in_tenant_id i \<in> set (tenant_ids db)) (db_installs db) \<and>
     distinct (map (\<lambda>i. (in_tenant_id i, in_attest_subject i)) (filter (\<lambda>i. in_attest_subject i \<noteq> None) (db_installs db))) \<and>
     distinct (map (\<lambda>i. (in_tenant_id i, in_device_key i)) (filter (\<lambda>i. in_attest_subject i = None) (db_installs db)))"

definition schema_ok :: "control_db \<Rightarrow> bool" where
  "schema_ok db \<longleftrightarrow> tenants_ok db \<and> client_ids_ok db \<and> signing_keys_ok db \<and> quotas_ok db \<and> installs_ok db"

text \<open>The arbiter the upsert is modelled with, one index over tenant and anchor, is the two partial indexes together.\<close>

lemma partial_indexes:
  "distinct (map (\<lambda>i. (in_tenant_id i, row_anchor i)) is) \<longleftrightarrow>
     distinct (map (\<lambda>i. (in_tenant_id i, in_attest_subject i)) (filter (\<lambda>i. in_attest_subject i \<noteq> None) is)) \<and>
     distinct (map (\<lambda>i. (in_tenant_id i, in_device_key i)) (filter (\<lambda>i. in_attest_subject i = None) is))"
  by (induction "is") (auto simp: row_anchor_def image_iff split: option.splits)

lemma installs_ok_iff:
  "installs_ok db \<longleftrightarrow> installs_wf db \<and> (\<forall>i \<in> set (db_installs db). in_tenant_id i \<in> set (tenant_ids db))"
  unfolding installs_ok_def installs_wf_def partial_indexes by (auto simp: list_all_iff)

lemma signing_keys_ok_iff: "signing_keys_ok db \<longleftrightarrow> signing_wf db"
  by (simp add: signing_keys_ok_def signing_wf_def)

section \<open>Preservation\<close>

lemma upsert_install_tenants:
  assumes "upsert_install new db = Some (i, db')" "\<forall>i \<in> set (db_installs db). in_tenant_id i \<in> set (tenant_ids db)"
  shows "\<forall>i \<in> set (db_installs db'). in_tenant_id i \<in> set (tenant_ids db')"
proof (cases "find_install (in_tenant_id new) (row_anchor new) (db_installs db)")
  case None
  with assms show ?thesis by (auto simp: upsert_install_def tenant_ids_def split: if_splits)
next
  case (Some old)
  with assms(1) have "map in_tenant_id (db_installs db') = map in_tenant_id (db_installs db)" "db_tenants db' = db_tenants db"
    by (auto simp: upsert_install_def)
  then have "in_tenant_id ` set (db_installs db') = in_tenant_id ` set (db_installs db)" "tenant_ids db' = tenant_ids db"
    by (metis list.set_map) (simp add: tenant_ids_def \<open>db_tenants db' = db_tenants db\<close>)
  with assms(2) show ?thesis by (metis image_eqI imageE)
qed

lemma schema_ok_installs:
  assumes "schema_ok db" "control_kept db db'"
    "\<forall>i \<in> set (db_installs db'). in_tenant_id i \<in> set (tenant_ids db')"
  shows "schema_ok db'"
proof -
  have "installs_ok db'" using assms by (simp add: schema_ok_def installs_ok_iff control_kept_def)
  then show ?thesis
    using assms(1,2) by (simp add: schema_ok_def control_kept_def tenants_ok_def client_ids_ok_def signing_keys_ok_def
        quotas_ok_def tenant_ids_def)
qed

lemma IssueInstall_schema:
  assumes "IssueInstall rand pg tid platform subject dk tier db = (res, db')" "schema_ok db"
  shows "schema_ok db'"
proof (cases rule: IssueInstall_cases [OF assms(1)])
  case (1 new i)
  have "\<forall>i \<in> set (db_installs db). in_tenant_id i \<in> set (tenant_ids db)"
    using assms(2) by (simp add: schema_ok_def installs_ok_iff)
  from schema_ok_installs [OF assms(2) IssueInstall_kept [OF assms(1)] upsert_install_tenants [OF 1(1) this]]
  show ?thesis .
qed (use assms(2) in simp)

lemma EnsureSigningKey_schema:
  assumes "EnsureSigningKey gen snapshot pg pg' kid db = (err, db')" "schema_ok db"
  shows "schema_ok db'"
proof -
  have "signing_wf db'" using EnsureSigningKey_ok [OF _ assms(1)] assms(2) by (simp add: schema_ok_def signing_keys_ok_iff)
  moreover have "db' = db\<lparr>db_signing_keys := db_signing_keys db'\<rparr>"
    using assms(1) by (auto simp: EnsureSigningKey_def Let_def split: option.splits prod.splits if_splits sum.splits)
  then have "db_tenants db' = db_tenants db" "db_client_ids db' = db_client_ids db" "db_quotas db' = db_quotas db"
      "db_installs db' = db_installs db"
    by (metis control_db.select_convs control_db.surjective control_db.update_convs(5))+
  ultimately show ?thesis
    using assms(2) by (simp add: schema_ok_def tenants_ok_def client_ids_ok_def signing_keys_ok_iff quotas_ok_def
        installs_ok_def tenant_ids_def)
qed

lemma startup_schema:
  assumes "startup E st = (res, st')" "schema_ok (sv_db st)"
  shows "schema_ok (sv_db st')"
proof -
  have "schema_ok (sv_db st2)" if "prepare E conn pool st1 = (r, st2)" "schema_ok (sv_db st1)" for conn pool st1 r and st2
    using that EnsureSigningKey_schema by (fastforce simp: prepare_def Let_def split: option.splits prod.splits sum.splits)
  from this [of _ _ "st\<lparr>sv_conns := _, sv_pools := _\<rparr>"] assms show ?thesis
    by (auto simp: startup_def split: prod.splits sum.splits)
qed

lemma serve_schema:
  assumes "schema_ok (vs_db s)"
  shows "schema_ok (vs_db (snd (serve W h s)))"
proof -
  let ?D = "tokenDeps (wr_signer W) (wr_minter W) (wr_redis W) (hc_exchange h) (vs_db s)"
  have "schema_ok (tw_db w)" if "NewToken ?D (hc_rq h) (hc_now h) (exchange_world s) = (rs, w)" for rs w
    using that by (cases rule: NewToken_cases) (auto simp: tokenDeps_def exchange_world_def assms dest: IssueInstall_schema)
  moreover have "tw_db w = vs_db s" if "NewChallenge ?D (hc_rq h) (exchange_world s) = (rs, w)" for rs w
    using NewChallenge_db [of ?D "hc_rq h" "exchange_world s"] that by (simp add: exchange_world_def)
  ultimately show ?thesis
    using assms by (auto simp: serve_def Let_def split: sum.splits route.splits prod.splits)
qed

lemma serve_all_schema: "schema_ok (vs_db s) \<Longrightarrow> schema_ok (vs_db (serve_all W hs s))"
  by (induction hs arbitrary: s) (simp_all add: serve_schema)

section \<open>What the queries answer\<close>

lemma one_match:
  assumes "distinct (map f xs)"
  shows "length (filter (\<lambda>x. f x = k \<and> P x) xs) \<le> 1"
  using assms
proof (induction xs)
  case (Cons x xs)
  have "f x = k \<Longrightarrow> filter (\<lambda>x. f x = k \<and> P x) xs = []"
    using Cons.prems by (auto simp: filter_empty_conv intro: rev_image_eqI)
  with Cons show ?case by auto
qed simp

lemma one_match_nullable:
  assumes "distinct (List.map_filter f xs)"
  shows "length (filter (\<lambda>x. f x = Some k \<and> P x) xs) \<le> 1"
  using assms
proof (induction xs)
  case (Cons x xs)
  have "f x = Some k \<Longrightarrow> filter (\<lambda>x. f x = Some k \<and> P x) xs = []"
    using Cons.prems by (force simp: filter_empty_conv List.map_filter_def image_iff)
  moreover have "distinct (List.map_filter f xs)" using Cons.prems by (auto simp: List.map_filter_def split: if_splits)
  ultimately show ?case using Cons.IH by auto
qed simp

lemma legacy_rows_unique:
  assumes "schema_ok db"
  shows "length (legacy_rows db digest) \<le> 1"
proof -
  let ?cs = "filter (\<lambda>c. cl_legacy_key_hash c = Some digest \<and> cl_revoked_at c = None) (db_client_ids db)"
  have "length ?cs \<le> 1" using assms by (intro one_match_nullable) (simp add: schema_ok_def client_ids_ok_def)
  moreover have "length (filter (\<lambda>t. tn_tenant_id t = cl_tenant_id c) (db_tenants db)) \<le> 1" for c
    using one_match [of tn_tenant_id "db_tenants db" _ "\<lambda>_. True"] assms by (simp add: schema_ok_def tenants_ok_def tenant_ids_def)
  ultimately show ?thesis by (cases ?cs) (auto simp: legacy_rows_def)
qed

lemma ResolveLegacy_mode:
  assumes "schema_ok db" "ResolveLegacy pg db raw = Inr (tid, mode)"
  shows "tid \<in> set (tenant_ids db) \<and> mode \<in> {ModeDualAccept, ModeDeprecating, ModeCutoff}"
proof -
  from assms(2) have "(tid, mode) \<in> set (legacy_rows db (Sum256 raw))"
    by (auto simp: ResolveLegacy_def split: if_splits list.splits)
  with assms(1) show ?thesis
    by (auto simp: legacy_rows_def schema_ok_def tenants_ok_def tenant_ids_def list_all_iff mode_defs intro: rev_image_eqI)
qed

lemma ResolveTenant_exists:
  assumes "schema_ok db" "ResolveTenant pg db cid = Inr tid"
  shows "tid \<in> set (tenant_ids db)"
  using ResolveTenant_Inr [OF assms(2)] assms(1) by (auto simp: schema_ok_def client_ids_ok_def list_all_iff)

lemma LimitsFor_ranges:
  assumes "schema_ok db" "LimitsFor pg db tid tier = Inr q"
  shows "signed_column 64 (q_DailyEvents q) \<and> signed_column 32 (q_RPS q) \<and> signed_column 32 (q_LegacyRPS q)"
proof -
  have row: "signed_column 64 (qt_daily_events r) \<and> signed_column 32 (qt_rps_tier0 r) \<and> signed_column 32 (qt_rps_tier1 r) \<and>
      signed_column 32 (qt_rps_legacy r)" if "r \<in> set (db_quotas db)" for r
    using assms(1) that by (auto simp: schema_ok_def quotas_ok_def list_all_iff)
  show ?thesis
  proof (cases "filter (\<lambda>q. qt_tenant_id q = tid) (db_quotas db)")
    case Nil
    with assms(2) show ?thesis
      by (auto simp: LimitsFor_def DefaultQuota_def DefaultRPSTier1_def signed_column_def split: if_splits)
  next
    case (Cons r rs)
    then have "r \<in> set (db_quotas db)" by (metis (mono_tags, lifting) filter_is_subset list.set_intros(1) subsetD)
    from row [OF this] Cons assms(2) show ?thesis by (auto simp: LimitsFor_def split: if_splits)
  qed
qed

text \<open>
  C17. The control plane is type-sound. From a database that meets every constraint of the migrations (primary
  keys, foreign keys, the check on \<open>legacy_key_mode\<close>, column ranges, the partial unique indexes), startup, failed or
  not, and any sequence of requests lead to a database that meets them again. On such a database
  the queries never have a choice to make: a client id resolves to a tenant that exists, a legacy key
  belongs to at most one row, whose mode is one of the three the code knows, limits fit their columns,
  and two tenants, devices or attested subjects never share an install id.
\<close>

theorem control_schema_sound:
  assumes "schema_ok (sv_db st)" "startup E st = (res, st')" "vs_db s = sv_db st'" "vs_db (serve_all W hs s) = db"
  shows "schema_ok db \<and>
    (\<forall>pg cid tid. ResolveTenant pg db cid = Inr tid \<longrightarrow> tid \<in> set (tenant_ids db)) \<and>
    (\<forall>digest. length (legacy_rows db digest) \<le> 1) \<and>
    (\<forall>pg raw tid mode. ResolveLegacy pg db raw = Inr (tid, mode) \<longrightarrow>
       tid \<in> set (tenant_ids db) \<and> mode \<in> {ModeDualAccept, ModeDeprecating, ModeCutoff}) \<and>
    (\<forall>pg tid tier q. LimitsFor pg db tid tier = Inr q \<longrightarrow>
       signed_column 64 (q_DailyEvents q) \<and> signed_column 32 (q_RPS q) \<and> signed_column 32 (q_LegacyRPS q)) \<and>
    (\<forall>k k' i. install_of db k = Some i \<and> install_of db k' = Some i \<longrightarrow> k = k')"
proof -
  have ok: "schema_ok db" using serve_all_schema [of s W hs] startup_schema [OF assms(2,1)] assms(3,4) by simp
  then have "installs_wf db" by (simp add: schema_ok_def installs_ok_iff)
  with ok show ?thesis
    using ResolveTenant_exists legacy_rows_unique ResolveLegacy_mode LimitsFor_ranges installs_wf_inj by (intro conjI; blast)
qed

theorem control_schema_sound_witness:
  "\<exists>st' res. startup sample_startup cold_state = (res, st') \<and>
     schema_ok (vs_db (serve_all sample_wiring [sample_call ''POST'' ''/v1/auth/token''] (sample_service\<lparr>vs_db := sv_db st'\<rparr>)))"
proof -
  have ok: "schema_ok (sv_db cold_state)"
    by (simp add: cold_state_def sample_db_def schema_ok_def tenants_ok_def client_ids_ok_def signing_keys_ok_def quotas_ok_def
        installs_ok_def tenant_ids_def List.map_filter_def)
  obtain res st' where run: "startup sample_startup cold_state = (res, st')" by fastforce
  have "vs_db (sample_service\<lparr>vs_db := sv_db st'\<rparr>) = sv_db st'" by simp
  from control_schema_sound [OF ok run this refl] run show ?thesis by blast
qed

end
