(* ===== verification/Batch_Limits.thy ===== *)
theory Batch_Limits
  imports Service_Main
begin

text \<open>
  What a client is told when a batch is not admitted (\<open>quota.go\<close> and the 429 branch of \<open>batch.go\<close>): the wait the
  answer names is long enough for the budget that refused the batch to be another one, but a batch
  with more events than its install may send in one second is refused whatever it waits.
\<close>

section \<open>Waiting\<close>

lemma allowScript_reasons:
  assumes "allowScript R t rk dk n rps daily rttl dttl r = (Some (a, reason), r')" "a \<noteq> 1"
  shows "reason = ''rate_limit'' \<or> reason = ''daily_quota''"
  using assms
  by (auto simp: allowScript_def consume_def Let_def split: option.splits bool.splits prod.splits)

lemma Allow_denied:
  assumes "Allow R net c lm n t r = (Inr dec, r')" "\<not> d_Allowed dec"
  shows "d_Reason dec = ''rate_limit'' \<and> d_RetryAfter dec = Second \<or>
    d_Reason dec = ''daily_quota'' \<and> d_RetryAfter dec = untilNextUTCDay t"
  using assms
  by (auto simp: Allow_def run_script_def dest: allowScript_reasons split: transport.splits option.splits prod.splits if_splits)

lemma admit_batch_429:
  assumes "admit_batch D c b req t w = (rs, w')" "rs_Code rs = 429"
  obtains lm dec r' where "dp_LimitsFor D (c_TenantID c) (c_TrustTier c) = Some lm" "\<not> d_Allowed dec"
    "Allow (dp_Quota D) (dp_QuotaNet D) c (batch_limits b lm) (charge_units (valid_events D req)) t (w_redis w) = (Inr dec, r')"
    "rs = httpError [''Retry-After'' \<mapsto> itoa (whole_seconds (d_RetryAfter dec) + 1)] 429 (d_Reason dec)"
proof (cases rule: admit_batch_cases [OF assms(1)])
  case (2 lm res r')
  then obtain dec where dec: "res = Inr dec" "\<not> d_Allowed dec" using assms(2) by (cases res) auto
  with 2 assms(1) have "rs = httpError [''Retry-After'' \<mapsto> itoa (whole_seconds (d_RetryAfter dec) + 1)] 429 (d_Reason dec)"
    by (simp add: admit_batch_def split_events_eq Let_def batch_limits_def valid_events_def)
  with that 2 dec show thesis by blast
next
  case (3 lm dec r')
  from 3(4) show thesis using assms(2) by (cases rule: store_batch_cases) auto
qed (use assms(2) in simp)

lemma later_buckets:
  assumes "t + (whole_seconds d + 1) * Second \<le> t'"
  shows "d = Second \<Longrightarrow> rateKey c t' \<noteq> rateKey c t" "d = untilNextUTCDay t \<Longrightarrow> dayKey c t' \<noteq> dayKey c t"
proof -
  show "rateKey c t' \<noteq> rateKey c t" if "d = Second"
  proof -
    have "t div Second < t' div Second" using assms that by (simp add: whole_seconds_def)
    then show ?thesis by (simp add: rateKey_def Unix_def)
  qed
  show "dayKey c t' \<noteq> dayKey c t" if "d = untilNextUTCDay t"
  proof -
    let ?later = "t + (whole_seconds d + 1) * Second"
    have "?later div Day24h = t div Day24h + 1"
      using untilNextUTCDay_reaches_next_day [of t c] that by (simp add: Let_def utc_day_def)
    moreover have "?later div Day24h \<le> t' div Day24h" using assms by (intro zdiv_mono1) simp_all
    ultimately show ?thesis by (simp add: dayKey_def format_date_inject)
  qed
qed

text \<open>
  C20. A 429 tells the client how long to wait, and the wait is honest: the answer names a whole number of seconds
  between 1 and one day and a second, and from then on the budget that refused the batch, the install's
  second or the tenant's day, is never looked at again for this install: a later attempt is counted
  against a new one.
\<close>

theorem retry_after_is_honest:
  assumes "NewBatch D rq t w = (rs, w')" "rs_Code rs = 429"
  shows "\<exists>c b v' h. VerifyOrLegacy (dp_Verifier D) (dp_Legacy D) (rq_Authorization rq) t (w_verifier w) = ((Inr c, b), v') \<and>
    rs_Header rs ''Retry-After'' = Some (itoa h) \<and> 1 \<le> h \<and> h \<le> 86401 \<and>
    (rs_Body rs = ErrorBody ''rate_limit'' \<and> (\<forall>t'. t + h * Second \<le> t' \<longrightarrow> rateKey c t' \<noteq> rateKey c t) \<or>
     rs_Body rs = ErrorBody ''daily_quota'' \<and> (\<forall>t'. t + h * Second \<le> t' \<longrightarrow> dayKey c t' \<noteq> dayKey c t))"
  using assms(1)
proof (cases rule: NewBatch_cases)
  case (parsed c b v' body req)
  from parsed(5) assms(2) show ?thesis
  proof (rule admit_batch_429)
    fix lm dec r'
    assume dec: "\<not> d_Allowed dec"
      "Allow (dp_Quota D) (dp_QuotaNet D) c (batch_limits b lm) (charge_units (valid_events D req)) t
         (w_redis (count_legacy D c b req (w\<lparr>w_verifier := v'\<rparr>))) = (Inr dec, r')"
      and rs: "rs = httpError [''Retry-After'' \<mapsto> itoa (whole_seconds (d_RetryAfter dec) + 1)] 429 (d_Reason dec)"
    let ?h = "whole_seconds (d_RetryAfter dec) + 1"
    have day: "0 < untilNextUTCDay t" "untilNextUTCDay t \<le> 24 * Hour"
      using untilNextUTCDay_reaches_next_day [of t c] by (simp_all add: Let_def)
    note why = Allow_denied [OF dec(2,1)]
    have "1 \<le> ?h \<and> ?h \<le> 86401" using why day by (auto simp: whole_seconds_def)
    moreover have "d_RetryAfter dec = Second \<Longrightarrow> t + ?h * Second \<le> t' \<Longrightarrow> rateKey c t' \<noteq> rateKey c t"
        "d_RetryAfter dec = untilNextUTCDay t \<Longrightarrow> t + ?h * Second \<le> t' \<Longrightarrow> dayKey c t' \<noteq> dayKey c t" for t'
      using later_buckets [of t "d_RetryAfter dec" t' c] by blast+
    ultimately show ?thesis
      using why parsed(1) by (intro exI [of _ c] exI [of _ b] exI [of _ v'] exI [of _ ?h]) (auto simp: rs httpError_def)
  qed
qed (use assms(2) in auto)

section \<open>Batches that never fit\<close>

lemma lua_num_nonneg: "0 \<le> i \<Longrightarrow> 0 \<le> lua_num i"
  by (simp add: lua_num_def sgn_if)

lemma Allow_never_fits:
  assumes "redis_server R view" "counter_of (view r u (rateKey c t)) = Some cr" "0 \<le> cr"
    and "0 < q_RPS lm" "q_RPS lm < n" "n < 2 ^ 53"
  shows "Allow R (Answered u) c lm n t r = (Inr \<lparr>d_Allowed = False, d_RetryAfter = Second, d_Reason = ''rate_limit''\<rparr>, r)"
proof -
  have exact: "lua_num n = n" "lua_num (q_RPS lm) = q_RPS lm" using assms(4-6) by simp_all
  have "\<not> lua_num (lua_num cr + n) \<le> q_RPS lm"
    using lua_num_le [of "lua_num cr + n" "q_RPS lm"] lua_num_nonneg [OF assms(3)] assms(4-6) by linarith
  then have "over_limit (lua_GET R u (rateKey c t) r) (lua_num n) (lua_num (q_RPS lm)) = Some True"
    using lua_GET_counter [OF assms(1), of u "rateKey c t" r] assms(2,4) by (simp add: over_limit_def exact)
  then show ?thesis by (simp add: Allow_def run_script_def allowScript_def Let_def)
qed

lemma NewBatch_never_fits:
  assumes "redis_server (dp_Quota D) view" "dp_QuotaNet D = Answered u"
    and "VerifyOrLegacy (dp_Verifier D) (dp_Legacy D) (rq_Authorization rq) t (w_verifier w) = ((Inr c, b), v')"
    and "readBody (dp_gzip D) rq = Inr body" "dp_Unmarshal D body = Some req" "length (b_Events req) \<le> 500"
    and "dp_LimitsFor D (c_TenantID c) (c_TrustTier c) = Some lm"
    and "0 < q_RPS (batch_limits b lm)" "q_RPS (batch_limits b lm) < int (length (valid_events D req))"
    and "counter_of (view (w_redis w) u (rateKey c t)) = Some cr" "0 \<le> cr"
  shows "\<exists>w'. NewBatch D rq t w = (httpError [''Retry-After'' \<mapsto> ''2''] 429 ''rate_limit'', w') \<and>
    w_events w' = w_events w \<and> w_offsets w' = w_offsets w \<and> w_redis w' = w_redis w"
proof -
  let ?w = "count_legacy D c b req (w\<lparr>w_verifier := v'\<rparr>)"
  have "length (valid_events D req) \<le> 500" unfolding valid_events_def by (rule le_trans [OF length_filter_le assms(6)])
  moreover have units: "charge_units (valid_events D req) = int (length (valid_events D req))"
    using assms(8,9) by (auto simp: charge_units_def)
  ultimately have "Allow (dp_Quota D) (dp_QuotaNet D) c (batch_limits b lm) (charge_units (valid_events D req)) t (w_redis ?w) =
      (Inr \<lparr>d_Allowed = False, d_RetryAfter = Second, d_Reason = ''rate_limit''\<rparr>, w_redis w)"
    unfolding assms(2) units count_legacy_fields using assms(8-11) by (simp add: Allow_never_fits [OF assms(1)])
  moreover have "itoa (whole_seconds Second + 1) = ''2''" by code_simp
  ultimately have "\<exists>w'. admit_batch D c b req t ?w = (httpError [''Retry-After'' \<mapsto> ''2''] 429 ''rate_limit'', w') \<and>
      w_events w' = w_events w \<and> w_offsets w' = w_offsets w \<and> w_redis w' = w_redis w"
    using assms(7) by (simp add: admit_batch_def split_events_eq Let_def batch_limits_def valid_events_def)
  then show ?thesis using assms(3-6) by (simp add: NewBatch_def MaxEventsPerBatch_def)
qed

text \<open>The limits of a tenant without a row in \<open>quotas\<close>, for tokens of tier 1 and for legacy keys.\<close>

lemma default_limits:
  assumes "\<forall>q \<in> set (db_quotas db). qt_tenant_id q \<noteq> c_TenantID c" "ie_pg_limits e = Executed" "c_TrustTier c = 1"
  shows "\<exists>lm. dp_LimitsFor (batchDeps X R C e db) (c_TenantID c) (c_TrustTier c) = Some lm \<and>
    q_RPS (batch_limits b lm) = (if b then 5 else 10)"
proof -
  have "filter (\<lambda>q. qt_tenant_id q = c_TenantID c) (db_quotas db) = []" using assms(1) by (simp add: filter_empty_conv)
  with assms(2,3) show ?thesis
    by (simp add: batchDeps_def LimitsFor_def DefaultQuota_def DefaultRPSTier1_def batch_limits_def)
qed

text \<open>
  C19. A batch can be within the contract and yet never be accepted: for a tenant with the default limits and a
  credential of trust tier 1, the only tier the service issues with the attestor it runs with, a batch
  of more than ten and at most 500 valid events is answered 429 with a wait of two seconds in every
  state of the budgets, an untouched one included, with all systems up, so no wait ever helps and
  nothing of it is ever stored. The rate of an install counts events per second and a batch is admitted as a whole.
\<close>

theorem large_batch_never_admitted:
  assumes "redis_server R view" "ie_quota_net e = Answered u" "ie_pg_limits e = Executed"
    and "VerifyOrLegacy X (legacyResolver (ie_pg_legacy e) db) (rq_Authorization rq) t (w_verifier w) = ((Inr c, b), v')"
    and "c_TrustTier c = 1" "\<forall>q \<in> set (db_quotas db). qt_tenant_id q \<noteq> c_TenantID c"
    and "readBody (ie_gzip e) rq = Inr body" "ie_Unmarshal e body = Some req" "length (b_Events req) \<le> 500"
    and "10 < length (valid_events (batchDeps X R C e db) req)"
    and "counter_of (view (w_redis w) u (rateKey c t)) = Some cr" "0 \<le> cr"
  shows "\<exists>w'. NewBatch (batchDeps X R C e db) rq t w = (httpError [''Retry-After'' \<mapsto> ''2''] 429 ''rate_limit'', w') \<and>
    w_events w' = w_events w \<and> w_offsets w' = w_offsets w \<and> w_redis w' = w_redis w"
proof -
  let ?D = "batchDeps X R C e db"
  obtain lm where lm: "dp_LimitsFor ?D (c_TenantID c) (c_TrustTier c) = Some lm" "q_RPS (batch_limits b lm) = (if b then 5 else 10)"
    using default_limits [OF assms(6,3,5)] by blast
  have "dp_Quota ?D = R" "dp_QuotaNet ?D = ie_quota_net e" "dp_Verifier ?D = X" "dp_Legacy ?D = legacyResolver (ie_pg_legacy e) db"
      "dp_gzip ?D = ie_gzip e" "dp_Unmarshal ?D = ie_Unmarshal e"
    by (simp_all add: batchDeps_def)
  with NewBatch_never_fits [of ?D view u rq t w c b v' body req lm cr] lm assms show ?thesis by simp
qed

definition eleven_env :: ingest_env where
  "eleven_env = \<lparr>ie_pg_legacy = Executed, ie_pg_limits = Executed, ie_offset_net = (\<lambda>_. Executed), ie_pg_now = (\<lambda>_. 0),
     ie_quota_net = Answered 0, ie_gzip = (\<lambda>_. None), ie_uuid_Parse = Some,
     ie_Unmarshal = (\<lambda>_. Some \<lparr>b_SentAt = 0, b_Events = replicate 11 sample_event\<rparr>), ie_Marshal = (\<lambda>_. Some ''ok'')\<rparr>"

abbreviation eleven_deps :: "(keyspace, session_offsets) Deps" where
  "eleven_deps \<equiv> batchDeps sample_jwx mem_redis sync_conn eleven_env legacy_db"

lemma eleven_auth:
  "VerifyOrLegacy sample_jwx (legacyResolver (ie_pg_legacy eleven_env) legacy_db) (rq_Authorization sample_request) 0
     (w_verifier sample_world) = ((Inr legacy_claims, True), w_verifier sample_world)"
proof -
  have "legacyResolver Executed legacy_db ''wk_live_a'' = Some (''t1'', ''dual_accept'')"
    by (simp add: legacyResolver_def ResolveLegacy_def legacy_rows_def legacy_db_def sample_db_def)
  then show ?thesis
    by (simp add: VerifyOrLegacy_def sample_request_def stripBearer_legacy_example LegacyPrefix_def HasPrefix_def mode_defs
        legacy_claims_def eleven_env_def)
qed

lemma eleven_valid: "10 < length (valid_events eleven_deps \<lparr>b_SentAt = 0, b_Events = replicate 11 sample_event\<rparr>)"
  using sample_batch_valid by (simp add: valid_events_def batchDeps_def eleven_env_def)

theorem large_batch_never_admitted_witness:
  "\<exists>w'. NewBatch eleven_deps sample_request 0 sample_world = (httpError [''Retry-After'' \<mapsto> ''2''] 429 ''rate_limit'', w') \<and>
     w_events w' = []"
proof -
  have "\<exists>w'. NewBatch eleven_deps sample_request 0 sample_world = (httpError [''Retry-After'' \<mapsto> ''2''] 429 ''rate_limit'', w') \<and>
      w_events w' = w_events sample_world \<and> w_offsets w' = w_offsets sample_world \<and> w_redis w' = w_redis sample_world"
    by (rule large_batch_never_admitted [where cr = 0, OF mem.redis_server_axioms _ _ eleven_auth _ _ sample_body _ _ eleven_valid])
      (simp_all add: eleven_env_def legacy_claims_def legacy_db_def sample_db_def sample_world_def mem_view_def live_at_def
        counter_of_def)
  then show ?thesis by (auto simp: sample_world_def)
qed

theorem retry_after_is_honest_witness:
  "\<exists>rs w' h. NewBatch eleven_deps sample_request 0 sample_world = (rs, w') \<and> rs_Header rs ''Retry-After'' = Some (itoa h) \<and>
     1 \<le> h \<and> h \<le> 86401"
proof -
  obtain lm where lm: "dp_LimitsFor eleven_deps (c_TenantID legacy_claims) (c_TrustTier legacy_claims) = Some lm"
    "q_RPS (batch_limits True lm) = 5"
    using default_limits [of legacy_db legacy_claims eleven_env sample_jwx mem_redis sync_conn True]
    by (auto simp: eleven_env_def legacy_claims_def legacy_db_def sample_db_def)
  have "\<exists>w'. NewBatch eleven_deps sample_request 0 sample_world = (httpError [''Retry-After'' \<mapsto> ''2''] 429 ''rate_limit'', w') \<and>
      w_events w' = w_events sample_world \<and> w_offsets w' = w_offsets sample_world \<and> w_redis w' = w_redis sample_world"
    by (rule NewBatch_never_fits [where view = mem_view and u = 0 and cr = 0 and lm = lm and c = legacy_claims and b = True and
          v' = "w_verifier sample_world" and body = "''x''" and req = "\<lparr>b_SentAt = 0, b_Events = replicate 11 sample_event\<rparr>"])
      (use eleven_auth eleven_valid lm mem.redis_server_axioms sample_body in
        \<open>simp_all add: batchDeps_def eleven_env_def sample_world_def mem_view_def live_at_def counter_of_def\<close>)
  then obtain rs w' where "NewBatch eleven_deps sample_request 0 sample_world = (rs, w')" "rs_Code rs = 429" by auto
  from retry_after_is_honest [OF this] this show ?thesis by blast
qed

end
