(* ===== verification/Redis_Traffic.thy ===== *)
theory Redis_Traffic
  imports Attest Go_Text
begin

text \<open>
  Everything the fleet sends to one Redis server, interleaved in any way: admissions, client
  ceilings and challenges, each executed atomically at its server time. Over such traffic the
  budgets hold globally, not only for one call: \<open>bucket\<close> is the generic argument (a counter that is
  charged only inside a time window no longer than its time to live loses nothing to expiry).
\<close>

datatype redis_op =
    OpAllow transport Claims Quota int gotime
  | OpAllowClient transport string int duration
  | OpIssue "string option" transport string string
  | OpConsume transport string string string

fun op_net :: "redis_op \<Rightarrow> transport" where
  "op_net (OpAllow net cl lm n now) = net"
| "op_net (OpAllowClient net k limit window) = net"
| "op_net (OpIssue rand net c p) = net"
| "op_net (OpConsume net c p guess) = net"

definition op_times :: "redis_op list \<Rightarrow> gotime list" where
  "op_times ops = concat (map (\<lambda>x. case ran_at (op_net x) of None \<Rightarrow> [] | Some t \<Rightarrow> [t]) ops)"

fun op_state :: "'r redis \<Rightarrow> redis_op \<Rightarrow> 'r \<Rightarrow> 'r" where
  "op_state R (OpAllow net cl lm n now) r = snd (Allow R net cl lm n now r)"
| "op_state R (OpAllowClient net k limit window) r = snd (AllowClient R net k limit window r)"
| "op_state R (OpIssue rand net c p) r = snd (Issue R production_challenges rand net c p r)"
| "op_state R (OpConsume net c p guess) r = snd (Consume R net c p guess r)"

text \<open>The units an operation was admitted for, when it is an admission the selector \<open>P\<close> is about.\<close>

fun admitted_units :: "'r redis \<Rightarrow> (Claims \<Rightarrow> gotime \<Rightarrow> bool) \<Rightarrow> redis_op \<Rightarrow> 'r \<Rightarrow> int" where
  "admitted_units R P (OpAllow net cl lm n now) r =
     (case fst (Allow R net cl lm n now r) of
        Inr dec \<Rightarrow> if d_Allowed dec \<and> P cl now then n else 0
      | Inl _ \<Rightarrow> 0)"
| "admitted_units R P _ r = 0"

fun total_admitted :: "'r redis \<Rightarrow> (Claims \<Rightarrow> gotime \<Rightarrow> bool) \<Rightarrow> redis_op list \<Rightarrow> 'r \<Rightarrow> int" where
  "total_admitted R P [] r = 0"
| "total_admitted R P (x # xs) r = admitted_units R P x r + total_admitted R P xs (op_state R x r)"

fun ops_state :: "'r redis \<Rightarrow> redis_op list \<Rightarrow> 'r \<Rightarrow> 'r" where
  "ops_state R [] r = r"
| "ops_state R (x # xs) r = ops_state R xs (op_state R x r)"

lemma total_admitted_append:
  "total_admitted R P (xs @ ys) r = total_admitted R P xs r + total_admitted R P ys (ops_state R xs r)"
  by (induction xs arbitrary: r) auto

lemma ops_state_append: "ops_state R (xs @ ys) r = ops_state R ys (ops_state R xs r)"
  by (induction xs arbitrary: r) auto

lemma op_times_append [simp]: "op_times (xs @ ys) = op_times xs @ op_times ys"
  by (simp add: op_times_def)

section \<open>Keys\<close>

lemma append_first_sep:
  "s @ a # u = t @ a # w \<Longrightarrow> a \<notin> set s \<Longrightarrow> a \<notin> set t \<Longrightarrow> s = t \<and> u = w"
proof (induction s arbitrary: t)
  case Nil
  then show ?case by (cases t) auto
next
  case (Cons x s)
  then show ?case by (cases t) auto
qed

lemma append_last_sep:
  assumes "s @ a # u = t @ a # w" "a \<notin> set u" "a \<notin> set w"
  shows "s = t \<and> u = w"
proof -
  have "rev u @ a # rev s = rev w @ a # rev t" using arg_cong [OF assms(1), of rev] by simp
  from append_first_sep [OF this] assms(2,3) show ?thesis by simp
qed

lemma dayKey_inject: "dayKey cl now = dayKey cl' now' \<longleftrightarrow>
    c_TenantID cl = c_TenantID cl' \<and> now div Day24h = now' div Day24h"
proof
  assume "dayKey cl now = dayKey cl' now'"
  then have "(c_TenantID cl @ ''}'') @ CHR '':'' # format_date now =
      (c_TenantID cl' @ ''}'') @ CHR '':'' # format_date now'"
    by (simp add: dayKey_def)
  from append_last_sep [OF this format_date_no_colon format_date_no_colon]
  show "c_TenantID cl = c_TenantID cl' \<and> now div Day24h = now' div Day24h"
    by (simp add: format_date_inject)
next
  assume "c_TenantID cl = c_TenantID cl' \<and> now div Day24h = now' div Day24h"
  moreover then have "format_date now = format_date now'" by (simp add: format_date_inject)
  ultimately show "dayKey cl now = dayKey cl' now'" by (simp add: dayKey_def)
qed

lemma rateKey_inject:
  assumes "CHR '':'' \<notin> set (c_InstallID cl)" "CHR '':'' \<notin> set (c_InstallID cl')"
  shows "rateKey cl now = rateKey cl' now' \<longleftrightarrow> c_TenantID cl = c_TenantID cl' \<and>
    c_InstallID cl = c_InstallID cl' \<and> now div Second = now' div Second"
proof
  assume "rateKey cl now = rateKey cl' now'"
  then have "(c_TenantID cl @ ''}:'' @ c_InstallID cl) @ CHR '':'' # itoa (Unix now) =
      (c_TenantID cl' @ ''}:'' @ c_InstallID cl') @ CHR '':'' # itoa (Unix now')"
    by (simp add: rateKey_def)
  from append_last_sep [OF this itoa_no_colon itoa_no_colon]
  have "(c_TenantID cl @ ''}'') @ CHR '':'' # c_InstallID cl = (c_TenantID cl' @ ''}'') @ CHR '':'' # c_InstallID cl'"
    and u: "now div Second = now' div Second"
    by (simp_all add: Unix_def)
  from append_last_sep [OF this(1) assms] u
  show "c_TenantID cl = c_TenantID cl' \<and> c_InstallID cl = c_InstallID cl' \<and> now div Second = now' div Second"
    by simp
qed (simp add: rateKey_def Unix_def)

section \<open>Counters that are charged within their time to live\<close>

context redis_server
begin

text \<open>
  \<open>bucket k limit ttl a b r t A\<close>: the keyspace \<open>r\<close> at time \<open>t\<close> after charges of \<open>A\<close> units in all to
  \<open>k\<close>, each checked against \<open>limit\<close> and made at a time from \<open>a\<close> to before \<open>b\<close>; other steps leave the
  key alone.
\<close>

inductive bucket :: "string \<Rightarrow> int \<Rightarrow> int \<Rightarrow> gotime \<Rightarrow> gotime \<Rightarrow> 'r \<Rightarrow> gotime \<Rightarrow> int \<Rightarrow> bool"
  for k limit ttl a b where
  fresh: "(\<And>c. counter_of (view r t k) = Some c \<Longrightarrow> 0 \<le> c) \<Longrightarrow> bucket k limit ttl a b r t 0"
| other: "bucket k limit ttl a b r t A \<Longrightarrow> t \<le> t' \<Longrightarrow> view r' t' k = view r t' k \<Longrightarrow>
    bucket k limit ttl a b r' t' A"
| charge: "bucket k limit ttl a b r t A \<Longrightarrow> t \<le> t' \<Longrightarrow> a \<le> t' \<Longrightarrow> t' < b \<Longrightarrow> 0 \<le> n \<Longrightarrow> A' \<le> A + n \<Longrightarrow>
    counter_of (view r t' k) = Some c \<Longrightarrow> admits (view r t' k) n limit \<Longrightarrow>
    view r' t' k = charged (c + n) t' ttl \<Longrightarrow> bucket k limit ttl a b r' t' A'"

lemma admits_bound:
  assumes "admits x n limit" "counter_of x = Some c" "0 < limit" "limit < 2 ^ 53" "0 \<le> n" "0 \<le> c"
  shows "c + n \<le> limit"
proof -
  have "lua_num (lua_num c + n) \<le> limit"
    using assms(1-3) by (simp add: admits_def over_limit_def)
  from lua_num_le [OF this] have sum: "lua_num c + n \<le> limit" using assms(3,4) by simp
  then have "lua_num c \<le> limit" using assms(5) by simp
  from lua_num_le [OF this] have "c \<le> limit" using assms(3,4) by simp
  then have "lua_num c = c" using assms(4,6) by (intro lua_num_exact) simp_all
  with sum show ?thesis by simp
qed

lemma counter_passes:
  assumes "t \<le> t'" "\<And>c. counter_of (view r t k) = Some c \<Longrightarrow> 0 \<le> c" "counter_of (view r t' k) = Some c"
  shows "0 \<le> c"
  using assms(2,3) passes [OF assms(1), of r k]
  by (auto simp: live_at_def counter_of_def split: option.splits if_splits)

lemma bucket_bounded:
  assumes "bucket k limit ttl a b r t A" "0 < limit" "limit < 2 ^ 53" "b \<le> a + ttl * Second"
  shows "A \<le> limit \<and> (\<forall>c. counter_of (view r t k) = Some c \<longrightarrow> 0 \<le> c) \<and>
    (t < b \<and> 0 < A \<longrightarrow> (\<exists>c dl. view r t k = Some (itoa c, Some dl) \<and> A \<le> c \<and> b \<le> dl))"
  using assms(1)
proof (induction rule: bucket.induct)
  case (fresh r t)
  then show ?case using assms(2) by simp
next
  case (other r t A t' r')
  then have "\<forall>c. counter_of (view r' t' k) = Some c \<longrightarrow> 0 \<le> c" using counter_passes by metis
  then show ?case
    using other passes [OF other(2), of r k] by (auto simp: live_at_def)
next
  case (charge r t A t' n A' c r')
  have c: "0 \<le> c" using charge counter_passes [of t t' r k c] by blast
  have "A \<le> c"
    using charge c passes [OF charge(2), of r k]
    by (cases "0 < A") (auto simp: live_at_def counter_of_def)
  moreover have "c + n \<le> limit" using admits_bound [OF charge(8,7) assms(2,3) charge(5) c] .
  ultimately show ?case
    using charge c assms(4) by (auto simp: charged_def counter_of_def)
qed

end

section \<open>Traffic as charges\<close>

definition client_rate_key :: "string \<Rightarrow> bool" where
  "client_rate_key k \<longleftrightarrow> HasPrefix k ''rl:token:'' \<or> HasPrefix k ''rl:challenge:''"

text \<open>Client ceilings are on the keys and with the window the token handlers use.\<close>

fun wf_op :: "redis_op \<Rightarrow> bool" where
  "wf_op (OpAllowClient net k limit window) \<longleftrightarrow> client_rate_key k \<and> window = Minute"
| "wf_op _ \<longleftrightarrow> True"

text \<open>The keys of the admission script: the two an \<open>Allow\<close> touches and the ones nothing else does.\<close>

definition admission_key :: "string \<Rightarrow> bool" where
  "admission_key k \<longleftrightarrow> (\<exists>cl now. k = rateKey cl now \<or> k = dayKey cl now)"

lemma admission_key_other: "admission_key k \<Longrightarrow> k \<noteq> challenge_key c p \<and> \<not> client_rate_key k"
  by (auto simp: admission_key_def challenge_key_def client_rate_key_def HasPrefix_def rateKey_def dayKey_def)

lemma op_refused:
  assumes "ran_at (op_net x) = None"
  shows "op_state R x r = r \<and> admitted_units R P x r = 0"
proof -
  have "op_net x = Refused" using assms by (cases "op_net x") simp_all
  then show ?thesis
    by (cases x) (simp_all add: Allow_def AllowClient_def Issue_def Consume_def run_script_def Let_def
        split: option.splits)
qed

context redis_server
begin

lemma other_ops_leave:
  assumes "ran_at (op_net x) = Some t" "wf_op x" "admission_key k" "\<And>net cl lm n now. x \<noteq> OpAllow net cl lm n now"
  shows "view (op_state R x r) t k = view r t k \<and> admitted_units R P x r = 0"
proof (cases x)
  case (OpAllow net cl lm n now)
  with assms(4) show ?thesis by blast
next
  case (OpAllowClient net k' limit window)
  obtain res r' where run: "clientRateScript R t k' 60 r = (res, r')" by fastforce
  have "k \<noteq> k'" using admission_key_other [OF assms(3)] assms(2) OpAllowClient by auto
  then have "view r' t k = view r t k"
    by (cases rule: clientRateScript_cases [OF _ run]) simp_all
  with run assms(1,2) OpAllowClient show ?thesis
    by (cases net) (auto simp: AllowClient_def run_script_def whole_seconds_def split: option.splits)
next
  case (OpIssue rand net c p)
  with SET [of "5 * Minute" t "challenge_key c p" _ r] admission_key_other [OF assms(3), of c p] assms(1)
  show ?thesis
    by (cases net) (auto simp: Issue_def run_script_def Let_def production_challenges_def split: option.splits)
next
  case (OpConsume net c p guess)
  with GETDEL [of t "challenge_key c p" r] admission_key_other [OF assms(3), of c p] assms(1)
  show ?thesis
    by (cases net) (auto simp: Consume_def run_script_def split: option.splits prod.splits)
qed

text \<open>One operation, as far as the counter \<open>k\<close> is concerned: nothing, or a checked charge.\<close>

definition charge_step :: "(Claims \<Rightarrow> gotime \<Rightarrow> bool) \<Rightarrow> string \<Rightarrow> int \<Rightarrow> int \<Rightarrow> gotime \<Rightarrow> gotime \<Rightarrow>
    redis_op \<Rightarrow> 'r \<Rightarrow> gotime \<Rightarrow> bool" where
  "charge_step P k limit ttl a b x r t \<longleftrightarrow>
     view (op_state R x r) t k = view r t k \<and> admitted_units R P x r = 0
   \<or> (\<exists>n c. a \<le> t \<and> t < b \<and> 0 \<le> n \<and> admitted_units R P x r \<le> n \<and> counter_of (view r t k) = Some c \<and>
        admits (view r t k) n limit \<and> view (op_state R x r) t k = charged (c + n) t ttl)"

lemma other_charge_step:
  assumes "ran_at (op_net x) = Some t" "wf_op x" "\<nexists>net cl lm n now. x = OpAllow net cl lm n now"
  shows "charge_step P (dayKey cl0 now0) limit ttl a b x r t" "charge_step P (rateKey cl0 now0) limit ttl a b x r t"
proof -
  have "admission_key (dayKey cl0 now0)" "admission_key (rateKey cl0 now0)"
    unfolding admission_key_def by blast+
  with other_ops_leave [OF assms(1,2)] assms(3)
  show "charge_step P (dayKey cl0 now0) limit ttl a b x r t" "charge_step P (rateKey cl0 now0) limit ttl a b x r t"
    unfolding charge_step_def by blast+
qed

lemma traffic_bucket:
  "bucket k limit ttl a b r t A \<Longrightarrow> sorted (t # op_times ops) \<Longrightarrow>
   \<forall>x \<in> set ops. \<forall>r u. ran_at (op_net x) = Some u \<longrightarrow> charge_step P k limit ttl a b x r u \<Longrightarrow>
   bucket k limit ttl a b (ops_state R ops r) (last (t # op_times ops)) (A + total_admitted R P ops r)"
proof (induction ops arbitrary: r t A)
  case (Cons x ops)
  show ?case
  proof (cases "ran_at (op_net x)")
    case None
    with Cons op_refused [OF None, of R r P] show ?thesis by (simp add: op_times_def)
  next
    case (Some u)
    then have u: "t \<le> u" "sorted (u # op_times ops)" "op_times (x # ops) = u # op_times ops"
      using Cons.prems(2) by (simp_all add: op_times_def)
    have "charge_step P k limit ttl a b x r u" using Cons.prems(3) Some by simp
    then have "bucket k limit ttl a b (op_state R x r) u (A + admitted_units R P x r)"
      unfolding charge_step_def using bucket.other [OF Cons.prems(1) u(1)] bucket.charge [OF Cons.prems(1) u(1)]
      by fastforce
    from Cons.IH [OF this u(2)] Cons.prems(3) u(3) show ?thesis by (simp add: add.assoc)
  qed
qed (simp add: op_times_def)

text \<open>Within its time to live a counter admits no more than its limit, and is left a counter that is not negative.\<close>

lemma traffic_window:
  assumes "\<And>c. counter_of (view r t k) = Some c \<Longrightarrow> 0 \<le> c" "sorted (t # op_times ops)"
    and "\<forall>x \<in> set ops. \<forall>r u. ran_at (op_net x) = Some u \<longrightarrow> charge_step P k limit ttl a b x r u"
    and "0 < limit" "limit < 2 ^ 53" "b \<le> a + ttl * Second"
  shows "total_admitted R P ops r \<le> limit"
    and "counter_of (view (ops_state R ops r) (last (t # op_times ops)) k) = Some c \<Longrightarrow> 0 \<le> c"
proof -
  have "bucket k limit ttl a b (ops_state R ops r) (last (t # op_times ops)) (0 + total_admitted R P ops r)"
    by (rule traffic_bucket [OF bucket.fresh assms(2,3)]) (rule assms(1))
  note bound = bucket_bounded [OF this assms(4-6)]
  from bound show "total_admitted R P ops r \<le> limit" by simp
  from bound show "counter_of (view (ops_state R ops r) (last (t # op_times ops)) k) = Some c \<Longrightarrow> 0 \<le> c" by blast
qed

lemmas traffic_bounded = traffic_window(1)

end

context redis_server
begin

text \<open>What one admission does to the keyspace, lost replies included.\<close>

lemma Allow_cases:
  assumes "ran_at net = Some t" "Allow R net cl lm n now r = (res, r')"
  obtains (both) cr cd where
      "counter_of (view r t (rateKey cl now)) = Some cr" "counter_of (view r t (dayKey cl now)) = Some cd"
      "admits (view r t (rateKey cl now)) (lua_num n) (lua_num (q_RPS lm))"
      "admits (view r t (dayKey cl now)) (lua_num n) (lua_num (q_DailyEvents lm))"
      "view r' t = (view r t)(rateKey cl now := charged (cr + lua_num n) t 2,
                              dayKey cl now := charged (cd + lua_num n) t 172800)"
  | (half) cr where "counter_of (view r t (rateKey cl now)) = Some cr"
      "admits (view r t (rateKey cl now)) (lua_num n) (lua_num (q_RPS lm))"
      "view r' t = (view r t)(rateKey cl now := charged (cr + lua_num n) t 2)"
      "\<And>dec. res = Inr dec \<Longrightarrow> \<not> d_Allowed dec"
  | (none) "view r' t = view r t" "\<And>dec. res = Inr dec \<Longrightarrow> \<not> d_Allowed dec"
proof -
  obtain x r'' where run: "allowScript R t (rateKey cl now) (dayKey cl now) n (q_RPS lm) (q_DailyEvents lm)
      2 172800 r = (x, r'')" by fastforce
  have r': "r'' = r'" and no: "x \<noteq> Some (1, '''') \<Longrightarrow> \<forall>y. x \<noteq> Some (1, y) \<Longrightarrow> res = Inr dec \<Longrightarrow> \<not> d_Allowed dec" for dec
    using assms run by (cases net; auto simp: Allow_def run_script_def whole_seconds_def split: option.splits if_splits)+
  show thesis
    using both half none no
    by (cases rule: allowScript_cases [OF _ _ rateKey_dayKey run]) (auto simp: r')
qed

lemma admitted_units_le:
  assumes "0 \<le> n"
  shows "admitted_units R P (OpAllow net cl lm n now) r \<le> n"
  using assms by (simp split: sum.splits)

lemma allow_day_step:
  assumes "ran_at net = Some u" "P cl now \<longleftrightarrow> dayKey cl now = k"
    and "k = dayKey cl0 now0"
    and "dayKey cl now = k \<Longrightarrow> q_DailyEvents lm = limit \<and> 0 \<le> n \<and> n < 2 ^ 53 \<and> a \<le> u \<and> u < b"
    and "0 < limit" "limit < 2 ^ 53"
  shows "charge_step P k limit 172800 a b (OpAllow net cl lm n now) r u"
proof -
  obtain res r' where run: "Allow R net cl lm n now r = (res, r')" by fastforce
  have rk: "rateKey cl now \<noteq> k" using rateKey_dayKey assms(3) by metis
  show ?thesis
  proof (cases "dayKey cl now = k")
    case True
    then have n: "lua_num n = n" "lua_num (q_DailyEvents lm) = limit" "0 \<le> n" using assms(4-6) by simp_all
    show ?thesis
      using True rk n assms(4) [OF True] admitted_units_le [OF n(3), of P net cl lm now r]
      by (cases rule: Allow_cases [OF assms(1) run])
        (auto simp: charge_step_def run split: sum.splits)
  next
    case False
    then show ?thesis
      using rk assms(2) by (cases rule: Allow_cases [OF assms(1) run])
        (auto simp: charge_step_def run split: sum.splits)
  qed
qed

lemma allow_rate_step:
  assumes "ran_at net = Some u" "P cl now \<longrightarrow> rateKey cl now = k"
    and "k = rateKey cl0 now0"
    and "rateKey cl now = k \<Longrightarrow> q_RPS lm = limit \<and> 0 \<le> n \<and> n < 2 ^ 53 \<and> a \<le> u \<and> u < b"
    and "0 < limit" "limit < 2 ^ 53"
  shows "charge_step P k limit 2 a b (OpAllow net cl lm n now) r u"
proof -
  obtain res r' where run: "Allow R net cl lm n now r = (res, r')" by fastforce
  have dk: "dayKey cl now \<noteq> k" using rateKey_dayKey assms(3) by metis
  show ?thesis
  proof (cases "rateKey cl now = k")
    case True
    then have n: "lua_num n = n" "lua_num (q_RPS lm) = limit" "0 \<le> n" using assms(4-6) by simp_all
    show ?thesis
      using True dk n assms(4) [OF True] admitted_units_le [OF n(3), of P net cl lm now r]
      by (cases rule: Allow_cases [OF assms(1) run])
        (auto simp: charge_step_def run split: sum.splits)
  next
    case False
    then show ?thesis
      using dk assms(2) by (cases rule: Allow_cases [OF assms(1) run])
        (auto simp: charge_step_def run split: sum.splits)
  qed
qed

end

section \<open>Budgets\<close>

definition same_day :: "Claims \<Rightarrow> gotime \<Rightarrow> Claims \<Rightarrow> gotime \<Rightarrow> bool" where
  "same_day cl0 now0 cl now \<longleftrightarrow> c_TenantID cl = c_TenantID cl0 \<and> now div Day24h = now0 div Day24h"

definition same_second :: "Claims \<Rightarrow> gotime \<Rightarrow> Claims \<Rightarrow> gotime \<Rightarrow> bool" where
  "same_second cl0 now0 cl now \<longleftrightarrow> c_TenantID cl = c_TenantID cl0 \<and> c_InstallID cl = c_InstallID cl0 \<and>
     now div Second = now0 div Second"

text \<open>An admission of the bucket is for a sane number of units, against the bucket's limit, by a pod whose
  clock differs from the server's by at most \<open>skew\<close>.\<close>

fun fair :: "(Claims \<Rightarrow> gotime \<Rightarrow> bool) \<Rightarrow> (Quota \<Rightarrow> int) \<Rightarrow> int \<Rightarrow> duration \<Rightarrow> redis_op \<Rightarrow> bool" where
  "fair P sel limit skew (OpAllow net cl lm n now) \<longleftrightarrow>
     (if P cl now then sel lm = limit \<and> 0 \<le> n \<and> n < 2 ^ 53 \<and>
        (case ran_at net of None \<Rightarrow> True | Some t \<Rightarrow> \<bar>t - now\<bar> \<le> skew) else True)"
| "fair P sel limit skew _ \<longleftrightarrow> True"

text \<open>An admission of the bucket is for a sane number of units, against the bucket's limit, and runs on the server
  from \<open>a\<close> to before \<open>b\<close>, whatever the clock of its pod said.\<close>

fun run_within :: "(Claims \<Rightarrow> gotime \<Rightarrow> bool) \<Rightarrow> (Quota \<Rightarrow> int) \<Rightarrow> int \<Rightarrow> gotime \<Rightarrow> gotime \<Rightarrow> redis_op \<Rightarrow> bool" where
  "run_within P sel limit a b (OpAllow net cl lm n now) \<longleftrightarrow>
     (if P cl now then sel lm = limit \<and> 0 \<le> n \<and> n < 2 ^ 53 \<and>
        (case ran_at net of None \<Rightarrow> True | Some t \<Rightarrow> a \<le> t \<and> t < b) else True)"
| "run_within P sel limit a b _ \<longleftrightarrow> True"

fun plain_install :: "redis_op \<Rightarrow> bool" where
  "plain_install (OpAllow net cl lm n now) \<longleftrightarrow> CHR '':'' \<notin> set (c_InstallID cl)"
| "plain_install _ \<longleftrightarrow> True"

lemma window_bounds:
  assumes "now div d = now0 div d" "\<bar>t - now\<bar> \<le> skew" "0 < (d :: int)"
  shows "now0 div d * d - skew \<le> t \<and> t < (now0 div d + 1) * d + skew"
proof -
  have "now = now0 div d * d + now mod d" using div_mult_mod_eq [of now d] assms(1) by simp
  moreover have "0 \<le> now mod d" "now mod d < d" using assms(3) by simp_all
  moreover have "(now0 div d + 1) * d = now0 div d * d + d" by (simp add: distrib_right)
  ultimately show ?thesis using assms(2) by linarith
qed

lemma fair_allow:
  assumes "fair P sel L skew (OpAllow net cl lm n now)" "P cl now" "ran_at net = Some u"
  shows "sel lm = L \<and> 0 \<le> n \<and> n < 2 ^ 53 \<and> \<bar>u - now\<bar> \<le> skew"
  using assms by simp

text \<open>Traffic falls into an early part, before \<open>c\<close>, and a late one.\<close>

definition early :: "gotime \<Rightarrow> redis_op \<Rightarrow> bool" where
  "early c x \<longleftrightarrow> (case ran_at (op_net x) of None \<Rightarrow> True | Some u \<Rightarrow> u < c)"

lemma run_within_split:
  assumes "\<forall>x \<in> set ops. run_within P sel L a b x" "sorted (op_times ops)"
  shows "\<forall>x \<in> set (takeWhile (early c) ops). run_within P sel L a c x"
    and "\<forall>x \<in> set (dropWhile (early c) ops). run_within P sel L c b x"
proof -
  have "run_within P sel L a c x" if "early c x" "run_within P sel L a b x" for x
    using that by (cases x) (auto simp: early_def split: option.splits)
  then show "\<forall>x \<in> set (takeWhile (early c) ops). run_within P sel L a c x"
    using assms(1) by (blast dest: set_takeWhileD)
  have "run_within P sel L c b x" if "run_within P sel L a b x" "\<And>u. ran_at (op_net x) = Some u \<Longrightarrow> c \<le> u" for x
    using that by (cases x) (auto split: option.splits)
  moreover have "c \<le> u" if x: "x \<in> set (dropWhile (early c) ops)" "ran_at (op_net x) = Some u" for x u
  proof -
    obtain y ys where ys: "dropWhile (early c) ops = y # ys" "\<not> early c y"
      using x(1) by (metis dropWhile_eq_Cons_conv list.set_cases)
    then obtain v where v: "ran_at (op_net y) = Some v" "c \<le> v"
      by (auto simp: early_def split: option.splits)
    have "sorted (op_times (y # ys))"
      using assms(2) op_times_append [of "takeWhile (early c) ops" "y # ys"] ys(1)
      by (metis sorted_append takeWhile_dropWhile_id)
    moreover have "u \<in> set (op_times (y # ys))"
      using x ys(1) by (force simp: op_times_def)
    ultimately have "v \<le> u" using v(1) by (auto simp: op_times_def)
    with v(2) show "c \<le> u" by simp
  qed
  ultimately show "\<forall>x \<in> set (dropWhile (early c) ops). run_within P sel L c b x"
    using assms(1) by (blast dest: set_dropWhileD)
qed

lemma nothing_within_nothing:
  "\<forall>x \<in> set ops. run_within P sel L a a x \<Longrightarrow> total_admitted R P ops r = 0"
proof (induction ops arbitrary: r)
  case (Cons x ops)
  have "admitted_units R P x r = 0"
  proof (cases "ran_at (op_net x)")
    case None
    with op_refused [OF None, of R r P] show ?thesis by blast
  next
    case (Some u)
    with Cons.prems show ?thesis by (cases x) (auto split: sum.splits if_splits)
  qed
  with Cons show ?case by simp
qed simp

context redis_server
begin

lemma daily_budget:
  assumes "\<And>c. counter_of (view r t (dayKey cl0 now0)) = Some c \<Longrightarrow> 0 \<le> c" "sorted (t # op_times ops)"
    and "\<forall>x \<in> set ops. wf_op x \<and> fair (same_day cl0 now0) q_DailyEvents L (12 * Hour) x"
    and "0 < L" "L < 2 ^ 53"
  shows "total_admitted R (same_day cl0 now0) ops r \<le> L"
proof (rule traffic_bounded [OF assms(1,2) _ assms(4,5)])
  let ?a = "now0 div Day24h * Day24h - 12 * Hour" and ?b = "(now0 div Day24h + 1) * Day24h + 12 * Hour"
  have key: "same_day cl0 now0 cl now \<longleftrightarrow> dayKey cl now = dayKey cl0 now0" for cl now
    by (simp add: same_day_def dayKey_inject)
  have "charge_step (same_day cl0 now0) (dayKey cl0 now0) L 172800 ?a ?b x r u"
    if x: "x \<in> set ops" "ran_at (op_net x) = Some u" for x r u
  proof (cases "\<exists>net cl lm n now. x = OpAllow net cl lm n now")
    case True
    then obtain net cl lm n now where OpAllow: "x = OpAllow net cl lm n now" by blast
    have "q_DailyEvents lm = L \<and> 0 \<le> n \<and> n < 2 ^ 53 \<and> ?a \<le> u \<and> u < ?b"
      if "dayKey cl now = dayKey cl0 now0"
      using fair_allow [of "same_day cl0 now0" q_DailyEvents L "12 * Hour" net cl lm n now u]
        window_bounds [of now Day24h now0 u "12 * Hour"] that x assms(3) OpAllow
      by (auto simp: key [symmetric] same_day_def)
    with allow_day_step [where P = "same_day cl0 now0", OF _ key refl _ assms(4,5)] x(2) OpAllow
    show ?thesis by simp
  next
    case False
    with other_charge_step [OF x(2)] x(1) assms(3) show ?thesis by blast
  qed
  then show "\<forall>x \<in> set ops. \<forall>r u. ran_at (op_net x) = Some u \<longrightarrow>
      charge_step (same_day cl0 now0) (dayKey cl0 now0) L 172800 ?a ?b x r u" by blast
  show "?b \<le> ?a + 172800 * Second" by simp
qed

lemma rate_charge_step:
  assumes "wf_op x" "plain_install x" "run_within (same_second cl0 now0) q_RPS L a b x" "ran_at (op_net x) = Some u"
    and "0 < L" "L < 2 ^ 53" "CHR '':'' \<notin> set (c_InstallID cl0)"
  shows "charge_step (same_second cl0 now0) (rateKey cl0 now0) L 2 a b x r u"
proof (cases "\<exists>net cl lm n now. x = OpAllow net cl lm n now")
  case True
  then obtain net cl lm n now where OpAllow: "x = OpAllow net cl lm n now" by blast
  then have key: "same_second cl0 now0 cl now \<longleftrightarrow> rateKey cl now = rateKey cl0 now0"
    using assms(2,7) rateKey_inject [of cl cl0 now now0] by (auto simp: same_second_def)
  have "q_RPS lm = L \<and> 0 \<le> n \<and> n < 2 ^ 53 \<and> a \<le> u \<and> u < b" if "rateKey cl now = rateKey cl0 now0"
    using assms(3,4) key that by (simp add: OpAllow)
  with allow_rate_step [where P = "same_second cl0 now0", OF _ _ refl _ assms(5,6)] assms(4) OpAllow key
  show ?thesis by simp
next
  case False
  with other_charge_step [OF assms(4,1)] show ?thesis by blast
qed

lemma rate_budget:
  assumes "\<And>c. counter_of (view r t (rateKey cl0 now0)) = Some c \<Longrightarrow> 0 \<le> c" "sorted (t # op_times ops)"
    and "\<forall>x \<in> set ops. wf_op x \<and> plain_install x"
    and "\<forall>x \<in> set ops. run_within (same_second cl0 now0) q_RPS L a (a + int m * (2 * Second)) x"
    and "0 < L" "L < 2 ^ 53" "CHR '':'' \<notin> set (c_InstallID cl0)"
  shows "total_admitted R (same_second cl0 now0) ops r \<le> int m * L"
  using assms(1-4)
proof (induction m arbitrary: ops r t a)
  case 0
  then show ?case by (simp add: nothing_within_nothing)
next
  case (Suc m)
  let ?c = "a + 2 * Second" and ?P = "same_second cl0 now0"
  let ?xs = "takeWhile (early ?c) ops" and ?ys = "dropWhile (early ?c) ops"
  have sorted: "sorted (op_times ops)" "op_times ops = op_times ?xs @ op_times ?ys"
    using Suc.prems(2) op_times_append [of ?xs ?ys] by simp_all
  have wf: "\<forall>x \<in> set ?xs. wf_op x \<and> plain_install x" "\<forall>x \<in> set ?ys. wf_op x \<and> plain_install x"
    using Suc.prems(3) by (blast dest: set_takeWhileD set_dropWhileD)+
  have b: "a + int (Suc m) * (2 * Second) = ?c + int m * (2 * Second)" by (simp add: algebra_simps)
  note parts = run_within_split [OF Suc.prems(4) sorted(1), of ?c]
  have xs: "\<forall>x \<in> set ?xs. \<forall>r u. ran_at (op_net x) = Some u \<longrightarrow> charge_step ?P (rateKey cl0 now0) L 2 a ?c x r u"
    using wf(1) parts(1) rate_charge_step [OF _ _ _ _ assms(5-7)] by blast
  have first: "sorted (t # op_times ?xs)"
    using Suc.prems(2) by (simp add: sorted(2) sorted_append)
  have rest: "sorted (last (t # op_times ?xs) # op_times ?ys)"
    using Suc.prems(2) by (auto simp: sorted(2) sorted_append)
  note window = traffic_window [OF Suc.prems(1) first xs assms(5,6)]
  have "total_admitted R ?P ?xs r \<le> L" by (rule window(1)) simp_all
  moreover have "total_admitted R ?P ?ys (ops_state R ?xs r) \<le> int m * L"
    by (rule Suc.IH [OF window(2) rest wf(2) parts(2) [unfolded b]]) simp_all
  moreover have "total_admitted R ?P ops r = total_admitted R ?P ?xs r + total_admitted R ?P ?ys (ops_state R ?xs r)"
    using total_admitted_append [of R ?P ?xs ?ys r] by simp
  ultimately show ?case by (simp add: algebra_simps)
qed

end

section \<open>Properties\<close>

definition day_traffic :: "redis_op list" where
  "day_traffic = [OpAllow (Lost 5) quota_claims DefaultQuota 40 5, OpAllowClient (Answered 6) ''rl:token:c1'' 30 Minute,
     OpAllow (Answered 7) quota_claims DefaultQuota 2 7, OpConsume Refused ''c1'' ''ios'' ''n'']"

text \<open>
  C14. The rate limit of an install, for any traffic on the Redis server, any clocks of the pods and any delay between
  the receipt of a request and its admission: the units admitted out of the bucket of one install and one
  second of receipt are at most the limit when the admissions run on the server within two seconds, the
  time the counter lives, and at most \<open>m\<close> times the limit when they are spread over \<open>m\<close> times two seconds.
  Install ids hold no colon (the ones the control plane and the legacy path make never do).
\<close>

theorem rate_limit_per_counter_lifetime:
  assumes "redis_server R view" "sorted (t # op_times ops)" "0 < L" "L < 2 ^ 53"
    and "\<And>c. counter_of (view r t (rateKey cl0 now0)) = Some c \<Longrightarrow> 0 \<le> c"
    and "\<forall>x \<in> set ops. wf_op x \<and> plain_install x"
    and "\<forall>x \<in> set ops. run_within (same_second cl0 now0) q_RPS L a (a + int m * (2 * Second)) x"
    and "CHR '':'' \<notin> set (c_InstallID cl0)"
  shows "total_admitted R (same_second cl0 now0) ops r \<le> int m * L"
  by (rule redis_server.rate_budget [OF assms(1)]) (use assms(2-8) in auto)

theorem rate_limit_per_counter_lifetime_witness:
  "total_admitted mem_redis (same_second quota_claims 0) day_traffic Map.empty \<le> 50"
proof -
  have "total_admitted mem_redis (same_second quota_claims 0) day_traffic Map.empty \<le> int 1 * 50"
  proof (rule rate_limit_per_counter_lifetime [OF mem.redis_server_axioms, of 0 _ _ _ _ _ 0])
    show "sorted (0 # op_times day_traffic)" by (simp add: op_times_def day_traffic_def)
    show "\<forall>x \<in> set day_traffic. wf_op x \<and> plain_install x"
      by (simp add: day_traffic_def client_rate_key_def HasPrefix_def quota_claims_def)
    show "\<forall>x \<in> set day_traffic. run_within (same_second quota_claims 0) q_RPS 50 0 (0 + int 1 * (2 * Second)) x"
      by (simp add: day_traffic_def DefaultQuota_def quota_claims_def)
  qed (auto simp: mem_view_def live_at_def counter_of_def quota_claims_def)
  then show ?thesis by simp
qed

section \<open>Late admissions\<close>

text \<open>Batches of \<open>n\<close> events each, all received by the pod at \<open>now\<close> and admitted on the server at the times \<open>ts\<close>.\<close>

definition late_batches :: "Claims \<Rightarrow> Quota \<Rightarrow> int \<Rightarrow> gotime \<Rightarrow> gotime list \<Rightarrow> redis_op list" where
  "late_batches cl lm n now ts = map (\<lambda>t. OpAllow (Answered t) cl lm n now) ts"

lemma same_second_refl [simp]: "same_second cl now cl now"
  by (simp add: same_second_def)

context redis_server
begin

lemma expired_counter:
  assumes "view r t k = Some (v, Some dl)" "t \<le> t'" "dl \<le> t'"
  shows "counter_of (view r t' k) = Some 0"
  using passes [OF assms(2), of r k] assms(1,3) by (simp add: live_at_def counter_of_def)

lemma later_counter:
  assumes "view r t k = Some (itoa c, Some dl)" "t \<le> t'" "0 \<le> c"
  shows "\<exists>c'. counter_of (view r t' k) = Some c' \<and> 0 \<le> c' \<and> c' \<le> c"
  using passes [OF assms(2), of r k] assms(1,3) by (simp add: live_at_def counter_of_def)

lemma late_batches_all_admitted:
  assumes "0 \<le> n" "n \<le> q_RPS lm" "q_RPS lm < 2 ^ 53" "q_DailyEvents lm < 2 ^ 53"
    and "successively (\<lambda>t t'. t + 2 * Second \<le> t') (t # ts)"
    and "counter_of (view r t (rateKey cl now)) = Some 0"
    and "counter_of (view r t (dayKey cl now)) = Some cd" "0 \<le> cd"
    and "cd + int (length (t # ts)) * n \<le> q_DailyEvents lm"
  shows "total_admitted R (same_second cl now) (late_batches cl lm n now (t # ts)) r = int (length (t # ts)) * n"
  using assms(5-9)
proof (induction ts arbitrary: t r cd)
  case Nil
  with Allow_correct [OF redis_server_axioms, of r t cl now 0 n cd lm] assms(1-4) show ?case
    by (cases "Allow R (Answered t) cl lm n now r") (auto simp: late_batches_def split: if_splits)
next
  case (Cons u us)
  let ?rk = "rateKey cl now" and ?dk = "dayKey cl now"
  obtain res r' where run: "Allow R (Answered t) cl lm n now r = (res, r')" by fastforce
  have "0 \<le> int (length (u # us)) * n" using assms(1) by simp
  then have room: "cd + n \<le> q_DailyEvents lm" "cd + n + int (length (u # us)) * n \<le> q_DailyEvents lm"
    using Cons.prems(5) by (simp_all add: algebra_simps)
  have u: "t + 2 * Second \<le> u" using Cons.prems(1) by simp
  have ok: "res = Inr \<lparr>d_Allowed = True, d_RetryAfter = 0, d_Reason = ''''\<rparr>"
    "view r' t ?rk = Some (itoa n, Some (t + 2 * Second))" "view r' t ?dk = Some (itoa (cd + n), Some (t + 48 * Hour))"
    using Allow_correct [OF redis_server_axioms, of r t cl now 0 n cd lm] Cons.prems assms(1-4) room(1) run
      rateKey_dayKey [of cl now cl now]
    by simp_all
  have "counter_of (view r' u ?rk) = Some 0" using expired_counter [OF ok(2)] u by simp
  moreover obtain cd' where cd': "counter_of (view r' u ?dk) = Some cd'" "0 \<le> cd'" "cd' \<le> cd + n"
    using later_counter [OF ok(3), of u] u Cons.prems(4) assms(1) by auto
  ultimately have "total_admitted R (same_second cl now) (late_batches cl lm n now (u # us)) r' = int (length (u # us)) * n"
    using Cons.prems(1) room(2) by (intro Cons.IH [of u r' cd']) auto
  then show ?case using run ok(1)
    by (simp add: late_batches_def algebra_simps)
qed

end



end
