(* ===== verification/Fleet.thy ===== *)
theory Fleet
  imports Batch_Handler Redis_Traffic "HOL-Library.Multiset"
begin

text \<open>
  Many pods that serve \<open>POST /v1/batch\<close> on one Redis server, one offset store and one events table. A run
  lists their requests in the order in which Redis executes their admission scripts, with all other
  traffic on the server in between; a request brings its pod's wiring, clock and key cache. Each request
  has at most one admission (\<open>step_ops\<close>), so the budgets of \<open>Redis_Traffic\<close> carry over to what is stored.
\<close>

datatype ('r, 'o) fleet_op = Ingest "('r, 'o) Deps" http_request gotime Verifier | Background redis_op

fun fleet_step :: "'r redis \<Rightarrow> ('r, 'o) fleet_op \<Rightarrow> ('r, 'o) world \<Rightarrow> ('r, 'o) world" where
  "fleet_step R (Ingest D rq t v) w = snd (NewBatch D rq t (w\<lparr>w_verifier := v\<rparr>))"
| "fleet_step R (Background x) w = w\<lparr>w_redis := op_state R x (w_redis w)\<rparr>"

fun fleet_run :: "'r redis \<Rightarrow> ('r, 'o) fleet_op list \<Rightarrow> ('r, 'o) world \<Rightarrow> ('r, 'o) world" where
  "fleet_run R [] w = w"
| "fleet_run R (x # xs) w = fleet_run R xs (fleet_step R x w)"

text \<open>The admission a request asks for, if it gets that far.\<close>

fun step_ops :: "('r, 'o) fleet_op \<Rightarrow> redis_op list" where
  "step_ops (Ingest D rq t v) =
     (case fst (VerifyOrLegacy (dp_Verifier D) (dp_Legacy D) (rq_Authorization rq) t v) of
        (Inl _, _) \<Rightarrow> []
      | (Inr c, b) \<Rightarrow>
          (case readBody (dp_gzip D) rq of
             Inl _ \<Rightarrow> []
           | Inr body \<Rightarrow>
               (case dp_Unmarshal D body of
                  None \<Rightarrow> []
                | Some req \<Rightarrow>
                    if length (b_Events req) > MaxEventsPerBatch then []
                    else case dp_LimitsFor D (c_TenantID c) (c_TrustTier c) of
                      None \<Rightarrow> []
                    | Some lm \<Rightarrow> [OpAllow (dp_QuotaNet D) c (batch_limits b lm) (charge_units (valid_events D req)) t])))"
| "step_ops (Background x) = [x]"

definition day_rows :: "string \<Rightarrow> int \<Rightarrow> Row list \<Rightarrow> Row list" where
  "day_rows tenant day table = filter (\<lambda>r. r_TenantID r = tenant \<and> r_TSReceived r div Day24h = day) table"

text \<open>A \<open>Send\<close>, successful or not, stores each row it was given at most once and no other.\<close>

definition stores_once :: "ch_conn \<Rightarrow> bool" where
  "stores_once C \<longleftrightarrow> (\<forall>rows ok flushed. ch_Send C rows = (ok, flushed) \<longrightarrow> mset flushed \<subseteq># mset rows)"

lemma InsertEvents_once:
  assumes "stores_once C" "InsertEvents C rows table = (err, table')"
  shows "\<exists>added. table' = table @ added \<and> mset added \<subseteq># mset rows"
  using assms
  by (auto simp: InsertEvents_def stores_once_def append_rows_Inr split: if_splits sum.splits prod.splits)

section \<open>One request\<close>

lemma count_split: "day_rows T d (xs @ ys) = day_rows T d xs @ day_rows T d ys"
  by (simp add: day_rows_def)

lemma charge_units_bounds: "int (length es) \<le> charge_units es" "0 \<le> charge_units es" "length es \<le> 500 \<Longrightarrow> charge_units es \<le> 500"
  by (auto simp: charge_units_def Let_def)

text \<open>A request that was parsed goes on to admission; any other one changes no more than its pod's key cache.\<close>

lemma ingest_cases:
  assumes "NewBatch D rq t w = (rs, w')"
  obtains (stopped) "step_ops (Ingest D rq t (w_verifier w)) = []" "w_redis w' = w_redis w" "w_events w' = w_events w"
  | (asked) c b lm req res where
      "step_ops (Ingest D rq t (w_verifier w)) =
         [OpAllow (dp_QuotaNet D) c (batch_limits b lm) (charge_units (valid_events D req)) t]"
      "dp_LimitsFor D (c_TenantID c) (c_TrustTier c) = Some lm" "length (b_Events req) \<le> 500"
      "Allow (dp_Quota D) (dp_QuotaNet D) c (batch_limits b lm) (charge_units (valid_events D req)) t (w_redis w) = (res, w_redis w')"
      "w_events w' = w_events w \<or> (\<exists>dec. res = Inr dec \<and> d_Allowed dec) \<and> (\<exists>rs1 w1.
         store_batch D c req \<lparr>br_ReceivedAt = UnixMilli t, br_Accepted = [], br_Rejected = rejects D req\<rparr>
           (valid_events D req) t w1 = (rs1, w') \<and> w_events w1 = w_events w)"
proof -
  obtain auth b v' where v: "VerifyOrLegacy (dp_Verifier D) (dp_Legacy D) (rq_Authorization rq) t (w_verifier w) = ((auth, b), v')"
    by (metis prod.exhaust)
  consider (bad) "\<And>c body req. auth = Inr c \<Longrightarrow> readBody (dp_gzip D) rq = Inr body \<Longrightarrow> dp_Unmarshal D body = Some req \<Longrightarrow>
        length (b_Events req) > MaxEventsPerBatch"
    | (good) c body req where "auth = Inr c" "readBody (dp_gzip D) rq = Inr body" "dp_Unmarshal D body = Some req"
        "length (b_Events req) \<le> MaxEventsPerBatch"
    by fastforce
  then show thesis
  proof cases
    case bad
    then have "w' = w\<lparr>w_verifier := v'\<rparr>"
      using assms v by (auto simp: NewBatch_def Let_def split: sum.splits option.splits read_error.splits if_splits)
    moreover have "step_ops (Ingest D rq t (w_verifier w)) = []"
      using bad v by (auto split: sum.splits option.splits)
    ultimately show thesis using stopped by simp
  next
    case (good c body req)
    let ?w = "count_legacy D c b req (w\<lparr>w_verifier := v'\<rparr>)"
    have "admit_batch D c b req t ?w = (rs, w')"
      using assms v good by (auto simp: NewBatch_def)
    moreover have ops: "step_ops (Ingest D rq t (w_verifier w)) = (case dp_LimitsFor D (c_TenantID c) (c_TrustTier c) of
        None \<Rightarrow> []
      | Some lm \<Rightarrow> [OpAllow (dp_QuotaNet D) c (batch_limits b lm) (charge_units (valid_events D req)) t])"
      using v good by simp
    moreover have few: "length (b_Events req) \<le> 500" using good(4) by (simp add: MaxEventsPerBatch_def)
    ultimately show thesis
    proof (cases rule: admit_batch_cases)
      case (not_admitted lm res r')
      with asked [of c b lm req res] ops few show thesis by simp
    next
      case (admitted lm dec r')
      have "w_redis w' = r'" using admitted(4) by (cases rule: store_batch_cases) simp_all
      moreover have "\<exists>rs1 w1. store_batch D c req \<lparr>br_ReceivedAt = UnixMilli t, br_Accepted = [], br_Rejected = rejects D req\<rparr>
          (valid_events D req) t w1 = (rs1, w') \<and> w_events w1 = w_events w"
        using admitted(4) by (intro exI [of _ rs] exI [of _ "?w\<lparr>w_redis := r'\<rparr>"]) simp
      ultimately show thesis
        using asked [of c b lm req "Inr dec"] admitted(1-3) ops few by simp
    qed (use stopped ops in simp)
  qed
qed

lemma store_batch_rows:
  assumes "stores_once (dp_Insert D)" "store_batch D c req resp es t w = (rs, w')"
  shows "\<exists>added. w_events w' = w_events w @ added \<and> length added \<le> length es \<and>
    (\<forall>row \<in> set added. r_TenantID row = c_TenantID c \<and> r_TSReceived row = t)"
  using assms(2)
proof (cases rule: store_batch_cases)
  case (inserted st err table)
  obtain offs where rows: "length offs = length es" "ls_rows st = map2 (\<lambda>e off. fst (enrich_Row e c off t)) es offs"
    using build_rows_ok [OF inserted(1)] by auto
  obtain added where added: "table = w_events w @ added" "mset added \<subseteq># mset (ls_rows st)"
    using InsertEvents_once [OF assms(1) inserted(2)] by blast
  have "length added \<le> length es" using size_mset_mono [OF added(2)] rows by simp
  moreover have "set added \<subseteq> set (ls_rows st)" using set_mset_mono [OF added(2)] by simp
  moreover have "\<forall>row \<in> set (ls_rows st). r_TenantID row = c_TenantID c \<and> r_TSReceived row = t"
    using rows by (auto simp: set_zip)
  ultimately show ?thesis using added(1) inserted(3) by auto
qed simp

lemma ingest_step:
  assumes "dp_Quota D = R" "stores_once (dp_Insert D)"
    "fleet_step R (Ingest D rq t v) w = w'"
  shows "w_redis w' = ops_state R (step_ops (Ingest D rq t v)) (w_redis w)"
    and "\<exists>added. w_events w' = w_events w @ added \<and> int (length (day_rows (c_TenantID cl0) (now0 div Day24h) added)) \<le>
      total_admitted R (same_day cl0 now0) (step_ops (Ingest D rq t v)) (w_redis w)"
proof -
  obtain rs where run: "NewBatch D rq t (w\<lparr>w_verifier := v\<rparr>) = (rs, w')" using assms(3) by (metis fleet_step.simps(1) prod.collapse)
  show "w_redis w' = ops_state R (step_ops (Ingest D rq t v)) (w_redis w)"
    using run by (cases rule: ingest_cases) (simp_all add: assms(1))
  show "\<exists>added. w_events w' = w_events w @ added \<and> int (length (day_rows (c_TenantID cl0) (now0 div Day24h) added)) \<le>
      total_admitted R (same_day cl0 now0) (step_ops (Ingest D rq t v)) (w_redis w)"
    using run
  proof (cases rule: ingest_cases)
    case (asked c b lm req res)
    let ?n = "charge_units (valid_events D req)"
    have units: "total_admitted R (same_day cl0 now0) (step_ops (Ingest D rq t v)) (w_redis w) =
        (case res of Inr dec \<Rightarrow> if d_Allowed dec \<and> same_day cl0 now0 c t then ?n else 0 | Inl _ \<Rightarrow> 0)"
      using asked(1,4) by (simp add: assms(1))
    show ?thesis
    proof (cases "w_events w' = w_events w")
      case True
      then show ?thesis using units charge_units_bounds(2) [of "valid_events D req"]
        by (auto simp: day_rows_def split: sum.splits)
    next
      case False
      with asked(5) obtain dec rs1 w1 where d: "res = Inr dec" "d_Allowed dec" "w_events w1 = w_events w"
        "store_batch D c req \<lparr>br_ReceivedAt = UnixMilli t, br_Accepted = [], br_Rejected = rejects D req\<rparr>
           (valid_events D req) t w1 = (rs1, w')"
        by auto
      from store_batch_rows [OF assms(2) d(4)] d(3) obtain added where added: "w_events w' = w_events w @ added"
        "length added \<le> length (valid_events D req)" "\<forall>row \<in> set added. r_TenantID row = c_TenantID c \<and> r_TSReceived row = t"
        by auto
      have "int (length (day_rows (c_TenantID cl0) (now0 div Day24h) added)) \<le> (if same_day cl0 now0 c t then ?n else 0)"
      proof (cases "same_day cl0 now0 c t")
        case True
        have "length (day_rows (c_TenantID cl0) (now0 div Day24h) added) \<le> length added" by (simp add: day_rows_def)
        with True added(2) charge_units_bounds(1) [of "valid_events D req"] show ?thesis by simp
      next
        case False
        then have "day_rows (c_TenantID cl0) (now0 div Day24h) added = []"
          using added(3) by (auto simp: day_rows_def same_day_def filter_empty_conv)
        with False show ?thesis by simp
      qed
      with added(1) d(1,2) units show ?thesis by auto
    qed
  qed (simp add: day_rows_def)
qed

section \<open>A run\<close>

text \<open>What a run is asked to satisfy: one server, one budget for the tenant, clocks within twelve hours of Redis.\<close>

definition deps_ok :: "'r redis \<Rightarrow> string \<Rightarrow> int \<Rightarrow> ('r, 'o) Deps \<Rightarrow> gotime \<Rightarrow> bool" where
  "deps_ok R tenant L D t \<longleftrightarrow> dp_Quota D = R \<and> stores_once (dp_Insert D) \<and>
     (\<forall>tier lm. dp_LimitsFor D tenant tier = Some lm \<longrightarrow> q_DailyEvents lm = L) \<and>
     (case ran_at (dp_QuotaNet D) of None \<Rightarrow> True | Some u \<Rightarrow> \<bar>u - t\<bar> \<le> 12 * Hour)"

fun fleet_ok :: "'r redis \<Rightarrow> string \<Rightarrow> int \<Rightarrow> ('r, 'o) fleet_op \<Rightarrow> bool" where
  "fleet_ok R tenant L (Ingest D rq t v) \<longleftrightarrow> deps_ok R tenant L D t"
| "fleet_ok R tenant L (Background x) \<longleftrightarrow> wf_op x \<and> (\<forall>net cl lm n now. x \<noteq> OpAllow net cl lm n now)"

lemma batch_op_fair:
  assumes "deps_ok R (c_TenantID cl0) L D t" "dp_LimitsFor D (c_TenantID c) (c_TrustTier c) = Some lm"
    "length (b_Events req) \<le> MaxEventsPerBatch"
  shows "fair (same_day cl0 now0) q_DailyEvents L (12 * Hour)
    (OpAllow (dp_QuotaNet D) c (batch_limits b lm) (charge_units (valid_events D req)) t)"
proof -
  have "length (valid_events D req) \<le> length (b_Events req)" by (simp add: valid_events_def)
  then have "length (valid_events D req) \<le> 500" using assms(3) by (simp add: MaxEventsPerBatch_def)
  then have "charge_units (valid_events D req) \<le> 500" by (rule charge_units_bounds)
  with assms charge_units_bounds(2) [of "valid_events D req"] show ?thesis
    by (auto simp: deps_ok_def same_day_def batch_limits_def split: option.splits)
qed

lemma fleet_ops_fair:
  assumes "fleet_ok R (c_TenantID cl0) L x" "y \<in> set (step_ops x)"
  shows "wf_op y \<and> fair (same_day cl0 now0) q_DailyEvents L (12 * Hour) y"
proof (cases x)
  case (Background z)
  with assms show ?thesis by (cases z) auto
next
  case (Ingest D rq t v)
  obtain c b lm req where y: "y = OpAllow (dp_QuotaNet D) c (batch_limits b lm) (charge_units (valid_events D req)) t"
    "dp_LimitsFor D (c_TenantID c) (c_TrustTier c) = Some lm" "length (b_Events req) \<le> MaxEventsPerBatch"
    using assms(2) Ingest by (auto split: sum.splits option.splits if_splits prod.splits)
  with batch_op_fair [of R cl0 L D t c lm req now0 b] assms(1) Ingest show ?thesis by simp
qed

lemma fleet_run_admits:
  assumes "\<forall>x \<in> set xs. fleet_ok R (c_TenantID cl0) L x"
  shows "\<exists>added. w_events (fleet_run R xs w) = w_events w @ added \<and>
    int (length (day_rows (c_TenantID cl0) (now0 div Day24h) added)) \<le>
      total_admitted R (same_day cl0 now0) (concat (map step_ops xs)) (w_redis w)"
  using assms
proof (induction xs arbitrary: w)
  case (Cons x xs)
  let ?count = "\<lambda>added. int (length (day_rows (c_TenantID cl0) (now0 div Day24h) added))" and ?w = "fleet_step R x w"
  have "w_redis ?w = ops_state R (step_ops x) (w_redis w) \<and> (\<exists>added. w_events ?w = w_events w @ added \<and>
      ?count added \<le> total_admitted R (same_day cl0 now0) (step_ops x) (w_redis w))"
  proof (cases x)
    case (Ingest D rq t v)
    with Cons.prems ingest_step(1) [of D R rq t v w ?w] ingest_step(2) [of D R rq t v w ?w cl0 now0] show ?thesis
      by (simp add: deps_ok_def)
  next
    case (Background y)
    with Cons.prems show ?thesis by (cases y) (auto simp: day_rows_def)
  qed
  then obtain a where a: "w_events ?w = w_events w @ a" "w_redis ?w = ops_state R (step_ops x) (w_redis w)"
    "?count a \<le> total_admitted R (same_day cl0 now0) (step_ops x) (w_redis w)" by blast
  obtain a' where "w_events (fleet_run R xs ?w) = w_events ?w @ a'"
    "?count a' \<le> total_admitted R (same_day cl0 now0) (concat (map step_ops xs)) (w_redis ?w)"
    using Cons.IH [of ?w] Cons.prems by auto
  with a show ?case
    by (intro exI [of _ "a @ a'"]) (simp add: count_split total_admitted_append)
qed (simp add: day_rows_def)

text \<open>
  A tenant's storage is bounded by its daily budget, end to end: however many pods serve however many
  batches, valid, malformed, refused, retried or half stored, with any other traffic on Redis in
  between, the rows that a run adds to the events table for one tenant and one UTC day of receipt are
  never more than the tenant's daily budget. Nothing reaches storage that was not charged first.
\<close>

lemma stored_events_within_daily_budget:
  assumes "redis_server R view" "0 < L" "L < 2 ^ 53"
    and "\<forall>x \<in> set xs. fleet_ok R (c_TenantID cl0) L x"
    and "sorted (t0 # op_times (concat (map step_ops xs)))"
    and "\<And>c. counter_of (view (w_redis w) t0 (dayKey cl0 now0)) = Some c \<Longrightarrow> 0 \<le> c"
  shows "\<exists>added. w_events (fleet_run R xs w) = w_events w @ added \<and>
    int (length (filter (\<lambda>row. r_TenantID row = c_TenantID cl0 \<and> r_TSReceived row div Day24h = now0 div Day24h) added)) \<le> L"
proof -
  have "total_admitted R (same_day cl0 now0) (concat (map step_ops xs)) (w_redis w) \<le> L"
    by (rule redis_server.daily_budget [OF assms(1,6,5) _ assms(2,3)]) (use fleet_ops_fair assms(4) in fastforce)+
  with fleet_run_admits [OF assms(4), of w now0] show ?thesis
    unfolding day_rows_def by (meson order_trans)
qed

end
