(* ===== verification/Concurrent.thy ===== *)
theory Concurrent
  imports Fleet
begin

text \<open>
  Requests in flight. \<open>Fleet\<close> runs each request of \<open>POST /v1/batch\<close> as a whole; here a request is a \<open>task\<close> that
  stops at each access to state it shares with other requests (the key cache of its pod, Redis, the
  offset store, the events table), and a \<open>cluster\<close> of pods interleaves any number of them in any order.
  A task that runs alone computes \<open>NewBatch\<close> (\<open>solo_request_is_NewBatch\<close>), so the steps are the handler's;
  a task that is never scheduled again is a request whose pod has died.
\<close>

section \<open>A request as a task\<close>

datatype task =
    Arrived
  | Parsed Claims bool BatchRequest
  | Building Claims BatchRequest BatchResponse "Event list" "SessionKey \<Rightarrow> int64 option" "Row list" "string list"
  | Done response

fun task_step :: "('r, 'o) Deps \<Rightarrow> http_request \<Rightarrow> gotime \<Rightarrow> task \<Rightarrow> ('r, 'o) world \<Rightarrow> task \<times> ('r, 'o) world" where
  "task_step D rq t Arrived w =
     (case VerifyOrLegacy (dp_Verifier D) (dp_Legacy D) (rq_Authorization rq) t (w_verifier w) of
        ((auth, isLegacy), v') \<Rightarrow>
          (let w1 = w\<lparr>w_verifier := v'\<rparr> in
           case auth of
             Inl _ \<Rightarrow> (Done (httpError Map.empty 401 ''invalid token''), w1)
           | Inr claims \<Rightarrow>
               (case readBody (dp_gzip D) rq of
                  Inl ErrTooLarge \<Rightarrow> (Done (httpError Map.empty 413 ''batch too large''), w1)
                | Inl ErrUnreadable \<Rightarrow> (Done (httpError Map.empty 400 ''unreadable body''), w1)
                | Inr body \<Rightarrow>
                    (case dp_Unmarshal D body of
                       None \<Rightarrow> (Done (httpError Map.empty 400 ''malformed batch envelope''), w1)
                     | Some req \<Rightarrow>
                         if length (b_Events req) > MaxEventsPerBatch then
                           (Done (httpError Map.empty 413 ''too many events''), w1)
                         else (Parsed claims isLegacy req, count_legacy D claims isLegacy req w1)))))"
| "task_step D rq t (Parsed claims isLegacy req) w =
     (case split_events (dp_uuid_Parse D) (b_Events req) of (rejected, valid) \<Rightarrow>
       (let resp = \<lparr>br_ReceivedAt = UnixMilli t, br_Accepted = [], br_Rejected = rejected\<rparr> in
        case dp_LimitsFor D (c_TenantID claims) (c_TrustTier claims) of
          None \<Rightarrow> (Done (httpError Map.empty 503 ''limits unavailable''), w)
        | Some lm \<Rightarrow>
            (case Allow (dp_Quota D) (dp_QuotaNet D) claims (if isLegacy then lm\<lparr>q_RPS := q_LegacyRPS lm\<rparr> else lm)
                    (charge_units valid) t (w_redis w) of
               (Inl _, r') \<Rightarrow> (Done (httpError Map.empty 503 ''quota unavailable''), w\<lparr>w_redis := r'\<rparr>)
             | (Inr dec, r') \<Rightarrow>
                 if \<not> d_Allowed dec then
                   (Done (httpError [''Retry-After'' \<mapsto> itoa (whole_seconds (d_RetryAfter dec) + 1)] 429 (d_Reason dec)),
                    w\<lparr>w_redis := r'\<rparr>)
                 else (Building claims req resp valid Map.empty [] [], w\<lparr>w_redis := r'\<rparr>))))"
| "task_step D rq t (Building claims req resp (e # es) memo rows accepted) w =
     (case get_offset D (session_key claims e) (CandidateOffset (b_SentAt req) t)
        \<lparr>ls_memo = memo, ls_offsets = w_offsets w, ls_skew = w_skew w, ls_rows = rows, ls_accepted = accepted\<rparr> of
        (None, st) \<Rightarrow> (Done (httpError Map.empty 503 ''offset store unavailable''),
                     w\<lparr>w_offsets := ls_offsets st, w_skew := ls_skew st\<rparr>)
      | (Some offset, st') \<Rightarrow>
          (let st = add_row D claims t e offset st' in
           (Building claims req resp es (ls_memo st) (ls_rows st) (ls_accepted st),
            w\<lparr>w_offsets := ls_offsets st, w_skew := ls_skew st\<rparr>)))"
| "task_step D rq t (Building claims req resp [] memo rows accepted) w =
     (case InsertEvents (dp_Insert D) rows (w_events w) of
        (Some _, table) \<Rightarrow> (Done (httpError Map.empty 503 ''storage unavailable''), w\<lparr>w_events := table\<rparr>)
      | (None, table) \<Rightarrow>
          (case dp_Marshal D (resp\<lparr>br_Accepted := accepted\<rparr>) of
             None \<Rightarrow> (Done (httpError json_header 500 ''encode''), w\<lparr>w_events := table\<rparr>)
           | Some out \<Rightarrow> (Done \<lparr>rs_Code = 200, rs_Header = json_header, rs_Body = RawBody out\<rparr>,
                        w\<lparr>w_events := table\<rparr>)))"
| "task_step D rq t (Done rs) w = (Done rs, w)"

fun run_task :: "('r, 'o) Deps \<Rightarrow> http_request \<Rightarrow> gotime \<Rightarrow> nat \<Rightarrow> task \<Rightarrow> ('r, 'o) world \<Rightarrow> task \<times> ('r, 'o) world" where
  "run_task D rq t 0 tk w = (tk, w)"
| "run_task D rq t (Suc n) tk w = (case task_step D rq t tk w of (tk', w') \<Rightarrow> run_task D rq t n tk' w')"

section \<open>A task on its own\<close>

lemma run_task_Done [simp]: "run_task D rq t n (Done rs) w = (Done rs, w)"
  by (induction n) simp_all

lemma run_task_pos:
  "0 < n \<Longrightarrow> run_task D rq t n tk w = (case task_step D rq t tk w of (tk', w') \<Rightarrow> run_task D rq t (n - 1) tk' w')"
  by (cases n) simp_all

lemma loop_state_eta:
  "\<lparr>ls_memo = ls_memo st, ls_offsets = ls_offsets st, ls_skew = ls_skew st, ls_rows = ls_rows st, ls_accepted = ls_accepted st\<rparr> = st"
  by simp

text \<open>What \<open>store_batch\<close> does once its row loop has ended.\<close>

definition close_batch :: "('r, 'o) Deps \<Rightarrow> BatchResponse \<Rightarrow> bool \<times> 'o loop_state \<Rightarrow> ('r, 'o) world \<Rightarrow> response \<times> ('r, 'o) world" where
  "close_batch D resp loop w = (case loop of (ok, st) \<Rightarrow>
     (let w1 = w\<lparr>w_offsets := ls_offsets st, w_skew := ls_skew st\<rparr> in
      if \<not> ok then (httpError Map.empty 503 ''offset store unavailable'', w1)
      else case InsertEvents (dp_Insert D) (ls_rows st) (w_events w1) of
        (Some _, table) \<Rightarrow> (httpError Map.empty 503 ''storage unavailable'', w1\<lparr>w_events := table\<rparr>)
      | (None, table) \<Rightarrow>
          (case dp_Marshal D (resp\<lparr>br_Accepted := ls_accepted st\<rparr>) of
             None \<Rightarrow> (httpError json_header 500 ''encode'', w1\<lparr>w_events := table\<rparr>)
           | Some out \<Rightarrow> (\<lparr>rs_Code = 200, rs_Header = json_header, rs_Body = RawBody out\<rparr>, w1\<lparr>w_events := table\<rparr>))))"

lemma store_batch_close:
  "store_batch D c req resp valid t w = close_batch D resp (build_rows D c (b_SentAt req) t valid
     \<lparr>ls_memo = Map.empty, ls_offsets = w_offsets w, ls_skew = w_skew w, ls_rows = [], ls_accepted = []\<rparr>) w"
  by (simp add: store_batch_def close_batch_def)

lemma close_batch_world:
  "close_batch D resp loop (w\<lparr>w_offsets := a, w_skew := b\<rparr>) = close_batch D resp loop w"
  by (simp add: close_batch_def Let_def split: prod.splits)

lemma run_building:
  "length es < n \<Longrightarrow> run_task D rq t n (Building c req resp es memo rows acc) w =
     map_prod Done id (close_batch D resp (build_rows D c (b_SentAt req) t es
       \<lparr>ls_memo = memo, ls_offsets = w_offsets w, ls_skew = w_skew w, ls_rows = rows, ls_accepted = acc\<rparr>) w)"
proof (induction es arbitrary: n memo rows acc w)
  case Nil
  then obtain m where "n = Suc m" by (cases n) auto
  then show ?case
    by (simp add: close_batch_def Let_def split: option.splits prod.splits)
next
  case (Cons e es)
  obtain m where m: "n = Suc m" "length es < m" using Cons.prems by (cases n) auto
  let ?st = "\<lparr>ls_memo = memo, ls_offsets = w_offsets w, ls_skew = w_skew w, ls_rows = rows, ls_accepted = acc\<rparr>"
  obtain x st where off: "get_offset D (session_key c e) (CandidateOffset (b_SentAt req) t) ?st = (x, st)" by fastforce
  show ?case
  proof (cases x)
    case None
    with off m show ?thesis by (simp add: close_batch_def Let_def)
  next
    case (Some o1)
    with off m Cons.IH [OF m(2)] show ?thesis
      by (simp add: Let_def close_batch_world loop_state_eta del: add_row_fields)
  qed
qed

lemma run_parsed:
  assumes "length (b_Events req) \<le> 500"
  shows "run_task D rq t 502 (Parsed c b req) w = map_prod Done id (admit_batch D c b req t w)"
proof -
  have few: "length (filter P (b_Events req)) < 501" for P
    by (rule le_less_trans [OF length_filter_le]) (use assms in simp)
  show ?thesis
    by (auto simp: run_task_pos [of 502] admit_batch_def split_events_eq Let_def store_batch_close run_building [OF few]
        split: option.splits sum.splits prod.splits)
qed

text \<open>
  C10. The steps of a task are the handler: a request that is left alone is answered after at most 503 accesses to
  shared state (its key, its admission, at most one per event, the insert), with exactly the answer and
  the effects of the handler.
\<close>

theorem solo_request_is_NewBatch:
  "run_task D rq t 503 Arrived w = (Done (fst (NewBatch D rq t w)), snd (NewBatch D rq t w))"
  by (auto simp: run_task_pos [of 503] NewBatch_def MaxEventsPerBatch_def Let_def run_parsed prod_eq_iff
      split: sum.splits option.splits prod.splits read_error.splits)

section \<open>A cluster\<close>

record ('r, 'o) flight =
  fl_pod :: nat
  fl_deps :: "('r, 'o) Deps"
  fl_request :: http_request
  fl_at :: gotime
  fl_task :: task

text \<open>The state all pods share, the key cache of each pod, and the requests that have arrived so far.\<close>

record ('r, 'o) cluster =
  cs_world :: "('r, 'o) world"
  cs_pods :: "nat \<Rightarrow> Verifier"
  cs_flights :: "('r, 'o) flight list"

datatype ('r, 'o) action = Arrive nat "('r, 'o) Deps" http_request gotime | Work nat | Other redis_op

fun act :: "'r redis \<Rightarrow> ('r, 'o) action \<Rightarrow> ('r, 'o) cluster \<Rightarrow> ('r, 'o) cluster" where
  "act R (Arrive p D rq t) s =
     s\<lparr>cs_flights := cs_flights s @ [\<lparr>fl_pod = p, fl_deps = D, fl_request = rq, fl_at = t, fl_task = Arrived\<rparr>]\<rparr>"
| "act R (Work i) s =
     (if i < length (cs_flights s) then
        (let f = cs_flights s ! i in
         case task_step (fl_deps f) (fl_request f) (fl_at f) (fl_task f)
                ((cs_world s)\<lparr>w_verifier := cs_pods s (fl_pod f)\<rparr>) of
           (tk, w) \<Rightarrow> \<lparr>cs_world = w, cs_pods = (cs_pods s)(fl_pod f := w_verifier w),
                       cs_flights = (cs_flights s)[i := f\<lparr>fl_task := tk\<rparr>]\<rparr>)
      else s)"
| "act R (Other x) s = s\<lparr>cs_world := (cs_world s)\<lparr>w_redis := op_state R x (w_redis (cs_world s))\<rparr>\<rparr>"

text \<open>The Redis operation of a step, if it has one.\<close>

fun task_ops :: "('r, 'o) Deps \<Rightarrow> gotime \<Rightarrow> task \<Rightarrow> redis_op list" where
  "task_ops D t (Parsed c b req) = (case dp_LimitsFor D (c_TenantID c) (c_TrustTier c) of
      None \<Rightarrow> []
    | Some lm \<Rightarrow> [OpAllow (dp_QuotaNet D) c (batch_limits b lm) (charge_units (valid_events D req)) t])"
| "task_ops D t _ = []"

fun act_ops :: "('r, 'o) action \<Rightarrow> ('r, 'o) cluster \<Rightarrow> redis_op list" where
  "act_ops (Arrive p D rq t) s = []"
| "act_ops (Work i) s = (if i < length (cs_flights s) then
      (let f = cs_flights s ! i in task_ops (fl_deps f) (fl_at f) (fl_task f)) else [])"
| "act_ops (Other x) s = [x]"

text \<open>
  The states a cluster can be in after any sequence of actions that satisfy \<open>ok\<close>, with the operations its Redis
  server has executed so far.
\<close>

inductive reachable :: "'r redis \<Rightarrow> (('r, 'o) action \<Rightarrow> bool) \<Rightarrow> ('r, 'o) cluster \<Rightarrow> redis_op list \<Rightarrow> ('r, 'o) cluster \<Rightarrow> bool"
  for R ok s0 where
  start: "reachable R ok s0 [] s0"
| action: "reachable R ok s0 ops s \<Longrightarrow> ok a \<Longrightarrow> reachable R ok s0 (ops @ act_ops a s) (act R a s)"

text \<open>
  Invariants that speak of the shared state (\<open>G\<close>) and of each request beside it (\<open>F\<close>): when one step of a task keeps
  both, for itself and for every other request, they hold in every reachable state.
\<close>

locale shared_invariant =
  fixes G :: "('r, 'o) world \<Rightarrow> bool"
    and F :: "('r, 'o) Deps \<Rightarrow> http_request \<Rightarrow> task \<Rightarrow> ('r, 'o) world \<Rightarrow> bool"
    and ok :: "('r, 'o) action \<Rightarrow> bool"
  assumes arrives: "ok (Arrive p D rq t) \<Longrightarrow> F D rq Arrived w"
    and steps: "G w \<Longrightarrow> F D rq tk w \<Longrightarrow> task_step D rq t tk w = (tk', w') \<Longrightarrow> G w' \<and> F D rq tk' w'"
    and others: "G w \<Longrightarrow> F D rq tk w \<Longrightarrow> task_step D rq t tk w = (tk', w') \<Longrightarrow> F D' rq' tk'' w \<Longrightarrow> F D' rq' tk'' w'"
    and unrelated: "G (w\<lparr>w_verifier := v\<rparr>) = G w" "F D rq tk (w\<lparr>w_verifier := v\<rparr>) = F D rq tk w"
      "G (w\<lparr>w_redis := r\<rparr>) = G w" "F D rq tk (w\<lparr>w_redis := r\<rparr>) = F D rq tk w"
begin

definition holds :: "('r, 'o) cluster \<Rightarrow> bool" where
  "holds s \<longleftrightarrow> G (cs_world s) \<and> (\<forall>f \<in> set (cs_flights s). F (fl_deps f) (fl_request f) (fl_task f) (cs_world s))"

lemma work_holds:
  assumes "holds s" "i < length (cs_flights s)"
  shows "holds (act R (Work i) s)"
proof -
  let ?f = "cs_flights s ! i"
  let ?w = "(cs_world s)\<lparr>w_verifier := cs_pods s (fl_pod ?f)\<rparr>"
  obtain tk w' where step: "task_step (fl_deps ?f) (fl_request ?f) (fl_at ?f) (fl_task ?f) ?w = (tk, w')" by fastforce
  have f: "G ?w" "F (fl_deps ?f) (fl_request ?f) (fl_task ?f) ?w" using assms by (simp_all add: holds_def unrelated)
  have "F (fl_deps g) (fl_request g) (fl_task g) w'" if "g \<in> set (cs_flights s)" for g
    using others [OF f step] assms(1) that by (simp add: holds_def unrelated)
  with steps [OF f step] assms(2) step show ?thesis
    by (auto simp: holds_def Let_def dest!: set_update_subset_insert [THEN subsetD])
qed

lemma reachable_holds:
  assumes "reachable R ok s0 ops s" "holds s0"
  shows "holds s"
  using assms(1)
proof (induction rule: reachable.induct)
  case (action ops s a)
  show ?case
  proof (cases a)
    case (Arrive p D rq t)
    with action arrives [of p D rq t] show ?thesis by (auto simp: holds_def)
  next
    case (Work i)
    with action work_holds show ?thesis by (cases "i < length (cs_flights s)") simp_all
  next
    case (Other x)
    with action show ?thesis by (simp add: holds_def unrelated)
  qed
qed (rule assms(2))

end

fun run_actions :: "'r redis \<Rightarrow> ('r, 'o) action list \<Rightarrow> ('r, 'o) cluster \<Rightarrow> redis_op list \<times> ('r, 'o) cluster" where
  "run_actions R [] s = ([], s)"
| "run_actions R (a # as) s = (case run_actions R as (act R a s) of (ops, s') \<Rightarrow> (act_ops a s @ ops, s'))"

lemma reachable_run_actions:
  assumes "\<forall>a \<in> set as. ok a" "run_actions R as s0 = (ops, s)"
  shows "reachable R ok s0 ops s"
proof -
  have "reachable R ok s0 ops1 s1 \<Longrightarrow> \<forall>a \<in> set as. ok a \<Longrightarrow> run_actions R as s1 = (ops2, s2) \<Longrightarrow>
      reachable R ok s0 (ops1 @ ops2) s2" for ops1 ops2 s1 s2
  proof (induction as arbitrary: ops1 ops2 s1)
    case (Cons a as)
    obtain ops3 where "run_actions R as (act R a s1) = (ops3, s2)" "ops2 = act_ops a s1 @ ops3"
      using Cons.prems(3) by (auto split: prod.splits)
    with Cons.IH [OF reachable.action [OF Cons.prems(1), of a]] Cons.prems(2) show ?case by simp
  qed simp
  from this [OF reachable.start assms] show ?thesis by simp
qed

definition idle_cluster :: "(keyspace, session_offsets) cluster" where
  "idle_cluster = \<lparr>cs_world = sample_world, cs_pods = (\<lambda>_. NewVerifier [] [] []), cs_flights = []\<rparr>"

abbreviation sample_batch :: BatchRequest where
  "sample_batch \<equiv> \<lparr>b_SentAt = 0, b_Events = [sample_event]\<rparr>"

end
