(* ===== verification/Concurrent_Budget.thy ===== *)
theory Concurrent_Budget
  imports Concurrent
begin

text \<open>
  The daily budget of a tenant over requests in flight: what a task has been admitted for and has not stored
  yet is \<open>pending\<close>, and rows stored plus rows pending never exceed what Redis has admitted.
\<close>

section \<open>Budgets\<close>

text \<open>The rows of the tenant and day that a task was admitted for and has not yet tried to store.\<close>

fun pending :: "Claims \<Rightarrow> gotime \<Rightarrow> gotime \<Rightarrow> task \<Rightarrow> int" where
  "pending cl0 now0 t (Building c req resp es memo rows acc) =
     (if same_day cl0 now0 c t then int (length rows + length es) else 0)"
| "pending cl0 now0 t _ = 0"

fun task_ok :: "gotime \<Rightarrow> task \<Rightarrow> bool" where
  "task_ok t (Parsed c b req) \<longleftrightarrow> length (b_Events req) \<le> MaxEventsPerBatch"
| "task_ok t (Building c req resp es memo rows acc) \<longleftrightarrow>
     (\<forall>row \<in> set rows. r_TenantID row = c_TenantID c \<and> r_TSReceived row = t)"
| "task_ok t _ \<longleftrightarrow> True"

lemma InsertEvents_day_rows:
  assumes "stores_once C" "InsertEvents C rows table = (err, table')"
    "\<forall>row \<in> set rows. r_TenantID row = c_TenantID c \<and> r_TSReceived row = t"
  shows "\<exists>added. table' = table @ added \<and> int (length (day_rows (c_TenantID cl0) (now0 div Day24h) added)) \<le>
    (if same_day cl0 now0 c t then int (length rows) else 0)"
proof -
  obtain added where added: "table' = table @ added" "mset added \<subseteq># mset rows"
    using InsertEvents_once [OF assms(1,2)] by blast
  have "length added \<le> length rows" using size_mset_mono [OF added(2)] by simp
  moreover have "length (day_rows (c_TenantID cl0) (now0 div Day24h) added) \<le> length added" by (simp add: day_rows_def)
  moreover have "set added \<subseteq> set rows" using set_mset_mono [OF added(2)] by simp
  then have "\<not> same_day cl0 now0 c t \<Longrightarrow> day_rows (c_TenantID cl0) (now0 div Day24h) added = []"
    using assms(3) by (auto simp: day_rows_def same_day_def filter_empty_conv)
  ultimately show ?thesis using added(1) by auto
qed

lemma pending_nonneg: "0 \<le> pending cl0 now0 t tk"
  by (cases tk) simp_all

text \<open>
  What one step may do: keep the task well formed, run the operations it declares, all of them fair, and add to
  the table and to what is pending no more than was pending or is admitted by the step.
\<close>

definition within_budget :: "'r redis \<Rightarrow> Claims \<Rightarrow> gotime \<Rightarrow> int \<Rightarrow> gotime \<Rightarrow> redis_op list \<Rightarrow> task \<Rightarrow> ('r, 'o) world \<Rightarrow>
    task \<Rightarrow> ('r, 'o) world \<Rightarrow> bool" where
  "within_budget R cl0 now0 L t ops tk w tk' w' \<longleftrightarrow> task_ok t tk' \<and> w_redis w' = ops_state R ops (w_redis w) \<and>
    (\<forall>x \<in> set ops. wf_op x \<and> fair (same_day cl0 now0) q_DailyEvents L (12 * Hour) x) \<and>
    (\<exists>added. w_events w' = w_events w @ added \<and>
      int (length (day_rows (c_TenantID cl0) (now0 div Day24h) added)) + pending cl0 now0 t tk' \<le>
      pending cl0 now0 t tk + total_admitted R (same_day cl0 now0) ops (w_redis w))"

lemma parsed_within_budget:
  assumes "deps_ok R (c_TenantID cl0) L D t" "task_ok t (Parsed c b req)" "task_step D rq t (Parsed c b req) w = (tk', w')"
  shows "within_budget R cl0 now0 L t (task_ops D t (Parsed c b req)) (Parsed c b req) w tk' w'"
proof (cases "dp_LimitsFor D (c_TenantID c) (c_TrustTier c)")
  case None
  with assms(3) show ?thesis by (auto simp: within_budget_def split_events_eq Let_def day_rows_def)
next
  case (Some lm)
  have R: "dp_Quota D = R" using assms(1) by (simp add: deps_ok_def)
  obtain res r' where al: "Allow R (dp_QuotaNet D) c (batch_limits b lm) (charge_units (valid_events D req)) t (w_redis w) = (res, r')"
    by fastforce
  have fair: "fair (same_day cl0 now0) q_DailyEvents L (12 * Hour)
      (OpAllow (dp_QuotaNet D) c (batch_limits b lm) (charge_units (valid_events D req)) t)"
    by (rule batch_op_fair [OF assms(1) Some]) (use assms(2) in simp)
  have units: "int (length (valid_events D req)) \<le> charge_units (valid_events D req)" "0 \<le> charge_units (valid_events D req)"
    by (rule charge_units_bounds)+
  show ?thesis
    using assms(3) Some al fair units R
    by (auto simp: within_budget_def split_events_eq Let_def day_rows_def batch_limits_def valid_events_def
        split: sum.splits if_splits)
qed

lemma building_within_budget:
  assumes "stores_once (dp_Insert D)" "task_ok t (Building c req resp es memo rows acc)"
    "task_step D rq t (Building c req resp es memo rows acc) w = (tk', w')"
  shows "within_budget R cl0 now0 L t [] (Building c req resp es memo rows acc) w tk' w'"
proof (cases es)
  case Nil
  obtain err table where ins: "InsertEvents (dp_Insert D) rows (w_events w) = (err, table)" by fastforce
  from InsertEvents_day_rows [OF assms(1) ins, of c t cl0 now0] assms(2) Nil obtain added where
    "table = w_events w @ added" "int (length (day_rows (c_TenantID cl0) (now0 div Day24h) added)) \<le>
      (if same_day cl0 now0 c t then int (length rows) else 0)" by auto
  with assms(3) Nil ins show ?thesis by (auto simp: within_budget_def split: option.splits)
next
  case (Cons e es')
  let ?st = "\<lparr>ls_memo = memo, ls_offsets = w_offsets w, ls_skew = w_skew w, ls_rows = rows, ls_accepted = acc\<rparr>"
  obtain x st where off: "get_offset D (session_key c e) (CandidateOffset (b_SentAt req) t) ?st = (x, st)" by fastforce
  from get_offset_rows [OF off] have "ls_rows st = rows" by simp
  with assms(2,3) Cons off show ?thesis
    by (cases x) (auto simp: within_budget_def Let_def day_rows_def)
qed

lemma task_step_within_budget:
  assumes "deps_ok R (c_TenantID cl0) L D t" "task_ok t tk" "task_step D rq t tk w = (tk', w')"
  shows "within_budget R cl0 now0 L t (task_ops D t tk) tk w tk' w'"
proof (cases tk)
  case Arrived
  with assms(3) show ?thesis
    by (auto simp: within_budget_def Let_def day_rows_def MaxEventsPerBatch_def
        split: prod.splits sum.splits option.splits read_error.splits if_splits)
next
  case (Parsed c b req)
  with assms parsed_within_budget show ?thesis by metis
next
  case (Building c req resp es memo rows acc)
  with assms building_within_budget [of D t c req resp es memo rows acc rq w tk' w' R cl0 now0 L] show ?thesis
    by (simp add: deps_ok_def)
next
  case (Done rs)
  with assms(3) show ?thesis by (auto simp: within_budget_def day_rows_def)
qed

text \<open>The invariant of a cluster, for the tenant and the day of \<open>cl0\<close> and \<open>now0\<close>.\<close>

fun action_ok :: "'r redis \<Rightarrow> string \<Rightarrow> int \<Rightarrow> ('r, 'o) action \<Rightarrow> bool" where
  "action_ok R tenant L (Arrive p D rq t) \<longleftrightarrow> deps_ok R tenant L D t"
| "action_ok R tenant L (Work i) \<longleftrightarrow> True"
| "action_ok R tenant L (Other x) \<longleftrightarrow> wf_op x \<and> (\<forall>net cl lm n now. x \<noteq> OpAllow net cl lm n now)"

definition flight_pending :: "Claims \<Rightarrow> gotime \<Rightarrow> ('r, 'o) flight \<Rightarrow> int" where
  "flight_pending cl0 now0 f = pending cl0 now0 (fl_at f) (fl_task f)"

definition budget_inv :: "'r redis \<Rightarrow> Claims \<Rightarrow> gotime \<Rightarrow> int \<Rightarrow> ('r, 'o) world \<Rightarrow> redis_op list \<Rightarrow> ('r, 'o) cluster \<Rightarrow> bool" where
  "budget_inv R cl0 now0 L w0 ops s \<longleftrightarrow>
     (\<forall>f \<in> set (cs_flights s). deps_ok R (c_TenantID cl0) L (fl_deps f) (fl_at f) \<and> task_ok (fl_at f) (fl_task f)) \<and>
     w_redis (cs_world s) = ops_state R ops (w_redis w0) \<and>
     (\<forall>x \<in> set ops. wf_op x \<and> fair (same_day cl0 now0) q_DailyEvents L (12 * Hour) x) \<and>
     (\<exists>added. w_events (cs_world s) = w_events w0 @ added \<and>
        int (length (day_rows (c_TenantID cl0) (now0 div Day24h) added)) + sum_list (map (flight_pending cl0 now0) (cs_flights s)) \<le>
        total_admitted R (same_day cl0 now0) ops (w_redis w0))"

lemma sum_list_map_update:
  "i < length xs \<Longrightarrow> sum_list (map f (xs[i := x])) = sum_list (map f xs) - f (xs ! i) + (f x :: int)"
  by (induction xs arbitrary: i) (auto split: nat.splits)

lemma work_keeps_budget:
  assumes "budget_inv R cl0 now0 L w0 ops s" "i < length (cs_flights s)"
  shows "budget_inv R cl0 now0 L w0 (ops @ act_ops (Work i) s) (act R (Work i) s)"
proof -
  let ?f = "cs_flights s ! i"
  let ?w = "(cs_world s)\<lparr>w_verifier := cs_pods s (fl_pod ?f)\<rparr>" and ?ops = "task_ops (fl_deps ?f) (fl_at ?f) (fl_task ?f)"
  obtain tk w' where step: "task_step (fl_deps ?f) (fl_request ?f) (fl_at ?f) (fl_task ?f) ?w = (tk, w')" by fastforce
  have "deps_ok R (c_TenantID cl0) L (fl_deps ?f) (fl_at ?f)" "task_ok (fl_at ?f) (fl_task ?f)"
    using assms by (simp_all add: budget_inv_def)
  from task_step_within_budget [OF this step, of now0] obtain a where
    ok: "task_ok (fl_at ?f) tk" "w_redis w' = ops_state R ?ops (w_redis (cs_world s))"
      "\<forall>x \<in> set ?ops. wf_op x \<and> fair (same_day cl0 now0) q_DailyEvents L (12 * Hour) x"
    and a: "w_events w' = w_events (cs_world s) @ a"
      "int (length (day_rows (c_TenantID cl0) (now0 div Day24h) a)) + pending cl0 now0 (fl_at ?f) tk \<le>
       flight_pending cl0 now0 ?f + total_admitted R (same_day cl0 now0) ?ops (w_redis (cs_world s))"
    by (auto simp: within_budget_def flight_pending_def)
  from assms(1) obtain added where added: "w_events (cs_world s) = w_events w0 @ added"
    "int (length (day_rows (c_TenantID cl0) (now0 div Day24h) added)) + sum_list (map (flight_pending cl0 now0) (cs_flights s)) \<le>
       total_admitted R (same_day cl0 now0) ops (w_redis w0)" "w_redis (cs_world s) = ops_state R ops (w_redis w0)"
    by (auto simp: budget_inv_def)
  have state: "ops_state R (ops @ ?ops) (w_redis w0) = ops_state R ?ops (ops_state R ops (w_redis w0))"
    by (rule ops_state_append)
  have "\<exists>added'. w_events w' = w_events w0 @ added' \<and> int (length (day_rows (c_TenantID cl0) (now0 div Day24h) added')) +
      sum_list (map (flight_pending cl0 now0) ((cs_flights s)[i := ?f\<lparr>fl_task := tk\<rparr>])) \<le>
      total_admitted R (same_day cl0 now0) (ops @ ?ops) (w_redis w0)"
    using added a assms(2) sum_list_map_update [OF assms(2), of "flight_pending cl0 now0" "?f\<lparr>fl_task := tk\<rparr>"]
    by (intro exI [of _ "added @ a"]) (simp add: count_split total_admitted_append flight_pending_def)
  with assms ok step state added(3) show ?thesis
    by (auto simp: budget_inv_def Let_def dest!: set_update_subset_insert [THEN subsetD])
qed

lemma reachable_budget:
  assumes "reachable R (action_ok R (c_TenantID cl0) L) s0 ops s" "cs_flights s0 = []"
  shows "budget_inv R cl0 now0 L (cs_world s0) ops s"
  using assms(1)
proof (induction rule: reachable.induct)
  case start
  show ?case using assms(2) by (simp add: budget_inv_def day_rows_def)
next
  case (action ops s a)
  show ?case
  proof (cases a)
    case (Arrive p D rq t)
    with action show ?thesis by (auto simp: budget_inv_def flight_pending_def)
  next
    case (Work i)
    with action work_keeps_budget show ?thesis by (cases "i < length (cs_flights s)") (fastforce, simp)
  next
    case (Other x)
    then have "admitted_units R P x r = 0" "fair P sel l skew x" for P sel l skew r
      using action(2) by (cases x; simp)+
    with Other action show ?thesis by (auto simp: budget_inv_def ops_state_append total_admitted_append)
  qed
qed

text \<open>
  C3. A tenant's storage is bounded by its daily budget in every state the cluster can reach: however many pods serve
  however many batches at the same time, their accesses to Redis, the offset store and the table
  interleaved in any way, requests stopped at any point, and with any other traffic on Redis, the rows
  stored for one tenant and one UTC day of receipt, together with those that were admitted and are still
  being prepared, are never more than the tenant's daily budget. Nothing is stored that was not charged first.
\<close>

theorem concurrent_daily_budget:
  assumes "redis_server R view" "0 < L" "L < 2 ^ 53" "cs_flights s0 = []"
    and "reachable R (action_ok R (c_TenantID cl0) L) s0 ops s" "sorted (t0 # op_times ops)"
    and "\<And>c. counter_of (view (w_redis (cs_world s0)) t0 (dayKey cl0 now0)) = Some c \<Longrightarrow> 0 \<le> c"
  shows "\<exists>added. w_events (cs_world s) = w_events (cs_world s0) @ added \<and>
    int (length (filter (\<lambda>row. r_TenantID row = c_TenantID cl0 \<and> r_TSReceived row div Day24h = now0 div Day24h) added)) +
      sum_list (map (\<lambda>f. pending cl0 now0 (fl_at f) (fl_task f)) (cs_flights s)) \<le> L"
proof -
  have inv: "budget_inv R cl0 now0 L (cs_world s0) ops s" by (rule reachable_budget [OF assms(5,4)])
  then have "total_admitted R (same_day cl0 now0) ops (w_redis (cs_world s0)) \<le> L"
    by (intro redis_server.daily_budget [OF assms(1,7,6) _ assms(2,3)]) (auto simp: budget_inv_def)
  with inv show ?thesis
    unfolding budget_inv_def day_rows_def flight_pending_def by (meson order_trans)
qed

text \<open>Two pods get the same batch; both have parsed it when the first asks for admission.\<close>

definition two_requests :: "(keyspace, session_offsets) action list" where
  "two_requests = [Arrive 0 sample_deps sample_request 0, Arrive 1 sample_deps sample_request 0, Work 0, Work 1, Work 0]"

lemma sample_arrived:
  "task_step sample_deps sample_request t Arrived w =
     (Parsed legacy_claims True sample_batch, count_legacy sample_deps legacy_claims True sample_batch w)"
  by (simp add: sample_deps_def sample_auth sample_body legacy_claims_def MaxEventsPerBatch_def)

lemma sample_parsed:
  assumes "w_redis w = Map.empty"
  shows "\<exists>r'. task_step sample_deps sample_request 0 (Parsed legacy_claims True sample_batch) w =
    (Building legacy_claims sample_batch \<lparr>br_ReceivedAt = 0, br_Accepted = [], br_Rejected = []\<rparr> [sample_event] Map.empty [] [],
     w\<lparr>w_redis := r'\<rparr>)"
proof -
  obtain r' where "Allow mem_redis (Answered 0) legacy_claims (DefaultQuota\<lparr>q_RPS := q_LegacyRPS DefaultQuota\<rparr>) 1 0 Map.empty =
      (Inr \<lparr>d_Allowed = True, d_RetryAfter = 0, d_Reason = []\<rparr>, r')"
    using Allow_fresh_keyspace [of 1 "DefaultQuota\<lparr>q_RPS := q_LegacyRPS DefaultQuota\<rparr>" 0 legacy_claims 0]
    by (auto simp: DefaultQuota_def)
  then show ?thesis
    using assms
    by (intro exI [of _ r']) (simp add: sample_deps_def split_events_eq sample_batch_valid charge_units_def UnixMilli_def)
qed

lemma sample_limits:
  "task_ops sample_deps 0 (Parsed legacy_claims True sample_batch) =
     [OpAllow (Answered 0) legacy_claims (batch_limits True DefaultQuota) 1 0]"
  by (simp add: sample_deps_def valid_events_def sample_batch_valid charge_units_def)

lemma two_requests_run:
  obtains s where "run_actions mem_redis two_requests idle_cluster =
      ([OpAllow (Answered 0) legacy_claims (batch_limits True DefaultQuota) 1 0], s)"
    "sum_list (map (\<lambda>f. pending legacy_claims 0 (fl_at f) (fl_task f)) (cs_flights s)) = 1"
proof -
  let ?w = "(count_legacy sample_deps legacy_claims True sample_batch (sample_world\<lparr>w_verifier := NewVerifier [] [] []\<rparr>))\<lparr>w_verifier := NewVerifier [] [] []\<rparr>"
  let ?w2 = "(count_legacy sample_deps legacy_claims True sample_batch ?w)\<lparr>w_verifier := NewVerifier [] [] []\<rparr>"
  obtain r' where "task_step sample_deps sample_request 0 (Parsed legacy_claims True sample_batch) ?w2 =
    (Building legacy_claims sample_batch \<lparr>br_ReceivedAt = 0, br_Accepted = [], br_Rejected = []\<rparr> [sample_event] Map.empty [] [],
     ?w2\<lparr>w_redis := r'\<rparr>)"
    using sample_parsed [of ?w2] by (auto simp: sample_world_def)
  then show thesis
    using that
    by (simp add: two_requests_def idle_cluster_def sample_arrived Let_def same_day_def sample_limits
        del: task_step.simps task_ops.simps(1))
qed

theorem concurrent_daily_budget_witness:
  "\<exists>s added. run_actions mem_redis two_requests idle_cluster = ([OpAllow (Answered 0) legacy_claims (batch_limits True DefaultQuota) 1 0], s) \<and>
     w_events (cs_world s) = added \<and> sum_list (map (\<lambda>f. pending legacy_claims 0 (fl_at f) (fl_task f)) (cs_flights s)) = 1 \<and>
     int (length (filter (\<lambda>row. r_TenantID row = ''t1'' \<and> r_TSReceived row div Day24h = 0) added)) + 1 \<le> 1000000"
proof -
  obtain s where run: "run_actions mem_redis two_requests idle_cluster =
      ([OpAllow (Answered 0) legacy_claims (batch_limits True DefaultQuota) 1 0], s)"
    "sum_list (map (\<lambda>f. pending legacy_claims 0 (fl_at f) (fl_task f)) (cs_flights s)) = 1" by (rule two_requests_run)
  have "deps_ok mem_redis ''t1'' 1000000 sample_deps 0"
    by (simp add: deps_ok_def sample_deps_def stores_once_def sync_conn_def DefaultQuota_def)
  then have "\<forall>a \<in> set two_requests. action_ok mem_redis (c_TenantID legacy_claims) 1000000 a"
    by (simp add: two_requests_def legacy_claims_def)
  note reach = reachable_run_actions [OF this run(1)]
  have "\<exists>added. w_events (cs_world s) = w_events (cs_world idle_cluster) @ added \<and>
      int (length (filter (\<lambda>row. r_TenantID row = c_TenantID legacy_claims \<and> r_TSReceived row div Day24h = 0 div Day24h) added)) +
      sum_list (map (\<lambda>f. pending legacy_claims 0 (fl_at f) (fl_task f)) (cs_flights s)) \<le> 1000000"
    by (rule concurrent_daily_budget [OF mem.redis_server_axioms _ _ _ reach, of 0])
      (auto simp: idle_cluster_def sample_world_def op_times_def mem_view_def live_at_def counter_of_def)
  with run show ?thesis by (auto simp: idle_cluster_def sample_world_def legacy_claims_def)
qed

end
