(* ===== verification/Concurrent_Store.thy ===== *)
theory Concurrent_Store
  imports Concurrent
begin

text \<open>
  Two invariants of the events table over requests in flight: every row was stored at the offset its session
  has in the offset store, and every event that was acknowledged has its row.
\<close>

section \<open>One offset per session\<close>

text \<open>A row was stored at the offset the store holds for its session.\<close>

definition row_pinned :: "(SessionKey \<Rightarrow> int64 option) \<Rightarrow> Row \<Rightarrow> bool" where
  "row_pinned off row \<longleftrightarrow> (\<exists>e c v t. row = fst (enrich_Row e c v t) \<and> off (session_key c e) = Some v)"

fun task_pinned :: "(SessionKey \<Rightarrow> int64 option) \<Rightarrow> task \<Rightarrow> bool" where
  "task_pinned off (Building c req resp es memo rows acc) \<longleftrightarrow>
     (\<forall>k v. memo k = Some v \<longrightarrow> off k = Some v) \<and> (\<forall>row \<in> set rows. row_pinned off row)"
| "task_pinned off _ \<longleftrightarrow> True"

definition extends :: "(SessionKey \<Rightarrow> int64 option) \<Rightarrow> (SessionKey \<Rightarrow> int64 option) \<Rightarrow> bool" where
  "extends off off' \<longleftrightarrow> (\<forall>k v. off k = Some v \<longrightarrow> off' k = Some v)"

lemma row_pinned_extends: "row_pinned off row \<Longrightarrow> extends off off' \<Longrightarrow> row_pinned off' row"
  unfolding row_pinned_def extends_def by blast

lemma task_pinned_extends: "task_pinned off tk \<Longrightarrow> extends off off' \<Longrightarrow> task_pinned off' tk"
  using row_pinned_extends [of off _ off'] by (cases tk) (auto simp: extends_def)

lemma extends_refl [simp]: "extends off off"
  by (simp add: extends_def)

lemma rows_pinned_collapse:
  assumes "row_pinned off row" "row_pinned off row'" "same_delivery row row'"
    "r_TS row \<noteq> r_TSReceived row" "r_TS row' \<noteq> r_TSReceived row'"
  shows "sort_key_of row = sort_key_of row'"
proof -
  obtain e c v t where 1: "row = fst (enrich_Row e c v t)" "off (session_key c e) = Some v"
    using assms(1) by (auto simp: row_pinned_def)
  obtain e' c' v' t' where 2: "row' = fst (enrich_Row e' c' v' t')" "off (session_key c' e') = Some v'"
    using assms(2) by (auto simp: row_pinned_def)
  have "session_key c e = session_key c' e'"
    using assms(3) 1(1) 2(1) by (simp add: same_delivery_def session_key_def)
  with 1 2 have "v' = v" by simp
  with same_offset_same_sort_key [OF 1(1) _ assms(3-5)] 2(1) show ?thesis by simp
qed

fun pinning_action :: "(gotime \<Rightarrow> SessionKey \<Rightarrow> int64 \<Rightarrow> 'o \<Rightarrow> int64 \<times> 'o) \<Rightarrow> ('r, 'o) action \<Rightarrow> bool" where
  "pinning_action gos (Arrive p D rq t) \<longleftrightarrow> dp_Offsets D = gos \<and> stores_only_sent (dp_Insert D)"
| "pinning_action gos _ \<longleftrightarrow> True"

context offset_store
begin

lemma building_pinned:
  assumes "dp_Offsets D = GetOrSet" "task_pinned (offset_of (w_offsets w)) (Building c req resp (e # es) memo rows acc)"
    "task_step D rq t (Building c req resp (e # es) memo rows acc) w = (tk', w')"
  shows "task_pinned (offset_of (w_offsets w')) tk' \<and> extends (offset_of (w_offsets w)) (offset_of (w_offsets w')) \<and>
    w_events w' = w_events w"
proof -
  let ?st = "\<lparr>ls_memo = memo, ls_offsets = w_offsets w, ls_skew = w_skew w, ls_rows = rows, ls_accepted = acc\<rparr>"
  obtain x st where off: "get_offset D (session_key c e) (CandidateOffset (b_SentAt req) t) ?st = (x, st)" by fastforce
  have memo: "memo_ok ?st" using assms(2) by (simp add: memo_ok_def)
  note facts = get_offset_store [OF assms(1) memo off] and rows = get_offset_rows [OF off]
  have ext: "extends (offset_of (w_offsets w)) (offset_of (ls_offsets st))"
    using facts(2) by (simp add: extends_def)
  show ?thesis
  proof (cases x)
    case None
    with assms(3) off ext show ?thesis by auto
  next
    case (Some v)
    then have "row_pinned (offset_of (ls_offsets st)) (fst (enrich_Row e c v t))"
      using facts(3) unfolding row_pinned_def by blast
    moreover have "\<forall>row \<in> set rows. row_pinned (offset_of (ls_offsets st)) row"
      using assms(2) row_pinned_extends [OF _ ext] by simp
    ultimately show ?thesis
      using Some assms(2,3) off ext facts(1) rows by (auto simp: Let_def memo_ok_def)
  qed
qed

lemma task_step_pinned:
  assumes "dp_Offsets D = GetOrSet" "stores_only_sent (dp_Insert D)" "task_pinned (offset_of (w_offsets w)) tk"
    "\<forall>row \<in> set (w_events w). row_pinned (offset_of (w_offsets w)) row" "task_step D rq t tk w = (tk', w')"
  shows "task_pinned (offset_of (w_offsets w')) tk' \<and> extends (offset_of (w_offsets w)) (offset_of (w_offsets w')) \<and>
    (\<forall>row \<in> set (w_events w'). row_pinned (offset_of (w_offsets w')) row)"
proof (cases tk)
  case Arrived
  with assms(4,5) show ?thesis
    by (auto simp: Let_def split: prod.splits sum.splits option.splits read_error.splits if_splits)
next
  case (Parsed c b req)
  with assms(4,5) show ?thesis
    by (auto simp: Let_def split_events_eq split: prod.splits sum.splits option.splits if_splits)
next
  case b: (Building c req resp es memo rows acc)
  show ?thesis
  proof (cases es)
    case Nil
    obtain err table where ins: "InsertEvents (dp_Insert D) rows (w_events w) = (err, table)" by fastforce
    have "set table \<subseteq> set (w_events w) \<union> set rows" using InsertEvents_only_sent [OF assms(2) ins] by auto
    then have "\<forall>row \<in> set table. row_pinned (offset_of (w_offsets w)) row" using assms(3,4) b Nil by auto
    with assms(5) b Nil ins show ?thesis by (auto split: option.splits)
  next
    case (Cons e es')
    with building_pinned [of D w c req resp e es' memo rows acc rq t tk' w'] assms b show ?thesis
      by (auto dest: row_pinned_extends)
  qed
next
  case (Done rs)
  with assms(4,5) show ?thesis by auto
qed

end

sublocale offset_store \<subseteq> pinned: shared_invariant
  "\<lambda>w. \<forall>row \<in> set (w_events w). row_pinned (offset_of (w_offsets w)) row"
  "\<lambda>D rq tk w. dp_Offsets D = GetOrSet \<and> stores_only_sent (dp_Insert D) \<and> task_pinned (offset_of (w_offsets w)) tk"
  "pinning_action GetOrSet"
proof (unfold_locales, goal_cases)
  case (2 w D rq tk t tk' w')
  then show ?case using task_step_pinned [of D w tk rq t tk' w'] by blast
next
  case (3 w D rq tk t tk' w' D' rq' tk'')
  then show ?case
    using task_step_pinned [of D w tk rq t tk' w'] task_pinned_extends [of "offset_of (w_offsets w)" tk''] by blast
qed auto

text \<open>
  C4. Redelivery is idempotent under concurrency: in every state a cluster on the Postgres store can reach, any two
  stored rows that are deliveries of one event (same tenant, event id, name, device, session and device
  time), by whatever pods, in whatever batches, overlapping in time or years apart, have the same sort
  key, so the storage engine collapses them, unless one was stored at its time of receipt because its
  clock was out of range.
\<close>

theorem concurrent_redelivery_collapses:
  assumes "reachable R (pinning_action Postgres_GetOrSet) s0 ops s" "cs_flights s0 = []" "w_events (cs_world s0) = []"
    and "row \<in> set (w_events (cs_world s))" "row' \<in> set (w_events (cs_world s))" "same_delivery row row'"
    and "r_TS row \<noteq> r_TSReceived row" "r_TS row' \<noteq> r_TSReceived row'"
  shows "sort_key_of row = sort_key_of row'"
proof -
  have "pg_store.pinned.holds s0" using assms(2,3) by (simp add: pg_store.pinned.holds_def)
  from pg_store.pinned.reachable_holds [OF assms(1) this] assms(4,5)
  have "row_pinned (offset_ms_of (w_offsets (cs_world s))) row" "row_pinned (offset_ms_of (w_offsets (cs_world s))) row'"
    by (simp_all add: pg_store.pinned.holds_def)
  from rows_pinned_collapse [OF this assms(6-8)] show ?thesis .
qed

text \<open>Two pods serve deliveries of one event, 198 seconds apart by their clocks, step by step in turn.\<close>

definition sample_at :: "gotime \<Rightarrow> (keyspace, session_offsets) Deps" where
  "sample_at q = sample_deps\<lparr>dp_QuotaNet := Answered q\<rparr>"

definition two_deliveries :: "(keyspace, session_offsets) action list" where
  "two_deliveries = [Arrive 0 (sample_at 0) sample_request 1754092801000000000,
     Arrive 1 (sample_at (48 * Hour)) sample_request 1754092999000000000,
     Work 0, Work 1, Work 0, Work 1, Work 0, Work 1, Work 0, Work 1]"

definition empty_at :: "gotime \<Rightarrow> keyspace \<Rightarrow> bool" where
  "empty_at t r \<longleftrightarrow> (\<forall>k. mem_view r t k = None)"

abbreviation sample_admit :: "gotime \<Rightarrow> gotime \<Rightarrow> keyspace \<Rightarrow> (quota_error + Decision) \<times> keyspace" where
  "sample_admit q t r \<equiv> Allow mem_redis (Answered q) legacy_claims (batch_limits True DefaultQuota) 1 t r"

lemma sample_admits:
  assumes "empty_at q r"
  shows "fst (sample_admit q t r) = Inr \<lparr>d_Allowed = True, d_RetryAfter = 0, d_Reason = []\<rparr>"
    and "q + 48 * Hour \<le> u \<Longrightarrow> empty_at u (snd (sample_admit q t r))"
proof -
  obtain res r' where run: "sample_admit q t r = (res, r')" by fastforce
  have "res = Inr \<lparr>d_Allowed = True, d_RetryAfter = 0, d_Reason = []\<rparr> \<and> mem_view r' q =
      (mem_view r q)(rateKey legacy_claims t \<mapsto> (itoa 1, Some (q + 2 * Second)), dayKey legacy_claims t \<mapsto> (itoa 1, Some (q + 48 * Hour)))"
    using Allow_correct [OF mem.redis_server_axioms, of r q legacy_claims t 0 1 0 "batch_limits True DefaultQuota"] assms run
    by (simp add: empty_at_def counter_of_def batch_limits_def DefaultQuota_def)
  moreover from this have "empty_at u r'" if "q + 48 * Hour \<le> u"
    using mem.passes [of q u r'] that assms by (auto simp: empty_at_def live_at_def)
  ultimately show "fst (sample_admit q t r) = Inr \<lparr>d_Allowed = True, d_RetryAfter = 0, d_Reason = []\<rparr>"
    "q + 48 * Hour \<le> u \<Longrightarrow> empty_at u (snd (sample_admit q t r))" by (simp_all add: run)
qed

lemma sample_at_steps:
  "task_step (sample_at q) sample_request t Arrived w =
     (Parsed legacy_claims True sample_batch, count_legacy sample_deps legacy_claims True sample_batch w)"
  "empty_at q (w_redis w) \<Longrightarrow> task_step (sample_at q) sample_request t (Parsed legacy_claims True sample_batch) w =
     (Building legacy_claims sample_batch \<lparr>br_ReceivedAt = UnixMilli t, br_Accepted = [], br_Rejected = []\<rparr> [sample_event] Map.empty [] [],
      w\<lparr>w_redis := snd (sample_admit q t (w_redis w))\<rparr>)"
  "fst (Postgres_GetOrSet 0 (session_key legacy_claims sample_event) 0 (w_offsets w)) = 0 \<Longrightarrow>
   task_step (sample_at q) sample_request t (Building legacy_claims sample_batch resp [sample_event] Map.empty [] []) w =
     (Building legacy_claims sample_batch resp [] [session_key legacy_claims sample_event \<mapsto> 0]
        [fst (enrich_Row sample_event legacy_claims 0 t)] [e_EventId sample_event],
      w\<lparr>w_offsets := snd (Postgres_GetOrSet 0 (session_key legacy_claims sample_event) 0 (w_offsets w)), w_skew := w_skew w\<rparr>)"
  "task_step (sample_at q) sample_request t (Building legacy_claims sample_batch resp [] memo [row] acc) w =
     (Done \<lparr>rs_Code = 200, rs_Header = json_header, rs_Body = RawBody ''ok''\<rparr>, w\<lparr>w_events := w_events w @ [row]\<rparr>)"
proof -
  show "task_step (sample_at q) sample_request t Arrived w =
     (Parsed legacy_claims True sample_batch, count_legacy sample_deps legacy_claims True sample_batch w)"
    by (simp add: sample_at_def sample_deps_def sample_auth sample_body legacy_claims_def MaxEventsPerBatch_def count_legacy_def)
  show "task_step (sample_at q) sample_request t (Parsed legacy_claims True sample_batch) w =
     (Building legacy_claims sample_batch \<lparr>br_ReceivedAt = UnixMilli t, br_Accepted = [], br_Rejected = []\<rparr> [sample_event] Map.empty [] [],
      w\<lparr>w_redis := snd (sample_admit q t (w_redis w))\<rparr>)" if "empty_at q (w_redis w)"
    using sample_admits(1) [OF that, of t]
    by (cases "sample_admit q t (w_redis w)")
      (simp add: sample_at_def sample_deps_def split_events_eq sample_batch_valid charge_units_def batch_limits_def)
  have "CandidateOffset 0 t = 0" by (simp add: CandidateOffset_def)
  then show "task_step (sample_at q) sample_request t (Building legacy_claims sample_batch resp [sample_event] Map.empty [] []) w =
     (Building legacy_claims sample_batch resp [] [session_key legacy_claims sample_event \<mapsto> 0]
        [fst (enrich_Row sample_event legacy_claims 0 t)] [e_EventId sample_event],
      w\<lparr>w_offsets := snd (Postgres_GetOrSet 0 (session_key legacy_claims sample_event) 0 (w_offsets w)), w_skew := w_skew w\<rparr>)"
    if "fst (Postgres_GetOrSet 0 (session_key legacy_claims sample_event) 0 (w_offsets w)) = 0"
    using that
    by (cases "Postgres_GetOrSet 0 (session_key legacy_claims sample_event) 0 (w_offsets w)")
      (simp add: sample_at_def sample_deps_def get_offset_def add_row_def split: prod.splits)
  show "task_step (sample_at q) sample_request t (Building legacy_claims sample_batch resp [] memo [row] acc) w =
     (Done \<lparr>rs_Code = 200, rs_Header = json_header, rs_Body = RawBody ''ok''\<rparr>, w\<lparr>w_events := w_events w @ [row]\<rparr>)"
    by (simp add: sample_at_def sample_deps_def InsertEvents_def sync_conn_def)
qed

lemma two_deliveries_run:
  "w_events (cs_world (snd (run_actions mem_redis two_deliveries idle_cluster))) =
     [fst (enrich_Row sample_event legacy_claims 0 1754092801000000000),
      fst (enrich_Row sample_event legacy_claims 0 1754092999000000000)]"
proof -
  have "empty_at 0 Map.empty" by (simp add: empty_at_def mem_view_def live_at_def)
  then show ?thesis
    by (simp add: two_deliveries_def idle_cluster_def sample_at_steps sample_admits(2) Let_def sample_world_def Postgres_GetOrSet_def
        case_prod_unfold del: task_step.simps)
qed

theorem concurrent_redelivery_collapses_witness:
  "\<exists>row row'. w_events (cs_world (snd (run_actions mem_redis two_deliveries idle_cluster))) = [row, row'] \<and> row \<noteq> row' \<and>
     sort_key_of row = sort_key_of row'"
proof -
  let ?row = "fst (enrich_Row sample_event legacy_claims 0 1754092801000000000)"
    and ?row' = "fst (enrich_Row sample_event legacy_claims 0 1754092999000000000)"
  obtain ops s where run: "run_actions mem_redis two_deliveries idle_cluster = (ops, s)" by fastforce
  have "\<forall>a \<in> set two_deliveries. pinning_action Postgres_GetOrSet a"
    by (simp add: two_deliveries_def sample_at_def sample_deps_def stores_only_sent_def sync_conn_def)
  from reachable_run_actions [OF this run]
  have "sort_key_of ?row = sort_key_of ?row'"
    by (rule concurrent_redelivery_collapses)
      (use two_deliveries_run run in \<open>simp_all add: idle_cluster_def sample_world_def same_delivery_def enrich_Row_TSClient
        Correct_eq sample_time [simplified] skew_consts\<close>)
  moreover have "r_TSReceived ?row \<noteq> r_TSReceived ?row'" by simp
  ultimately show ?thesis using two_deliveries_run by metis
qed

section \<open>What was acknowledged is stored\<close>

definition acked :: "('r, 'o) Deps \<Rightarrow> http_request \<Rightarrow> Row list \<Rightarrow> response \<Rightarrow> bool" where
  "acked D rq table rs \<longleftrightarrow> (\<exists>body req rows resp out. readBody (dp_gzip D) rq = Inr body \<and> dp_Unmarshal D body = Some req \<and>
     dp_Marshal D resp = Some out \<and> rs_Body rs = RawBody out \<and> br_Accepted resp = map e_EventId (valid_events D req) \<and>
     br_Rejected resp = rejects D req \<and> set rows \<subseteq> set table \<and> map r_EventID rows = br_Accepted resp)"

fun task_tracks :: "('r, 'o) Deps \<Rightarrow> http_request \<Rightarrow> Row list \<Rightarrow> task \<Rightarrow> bool" where
  "task_tracks D rq table Arrived \<longleftrightarrow> True"
| "task_tracks D rq table (Parsed c b req) \<longleftrightarrow>
     (\<exists>body. readBody (dp_gzip D) rq = Inr body \<and> dp_Unmarshal D body = Some req)"
| "task_tracks D rq table (Building c req resp es memo rows acc) \<longleftrightarrow>
     (\<exists>body. readBody (dp_gzip D) rq = Inr body \<and> dp_Unmarshal D body = Some req) \<and> br_Rejected resp = rejects D req \<and>
     acc = map r_EventID rows \<and> map r_EventID rows @ map e_EventId es = map e_EventId (valid_events D req)"
| "task_tracks D rq table (Done rs) \<longleftrightarrow> (rs_Code rs = 200 \<longrightarrow> acked D rq table rs)"

lemma acked_mono: "acked D rq table rs \<Longrightarrow> acked D rq (table @ ext) rs"
  unfolding acked_def set_append by (elim ex_forward) blast

lemma task_tracks_mono: "task_tracks D rq table tk \<Longrightarrow> task_tracks D rq (table @ ext) tk"
  by (cases tk) (auto intro: acked_mono)

lemma insert_acks:
  assumes "waits_for_flush (dp_Insert D)" "task_tracks D rq (w_events w) (Building c req resp [] memo rows acc)"
    "InsertEvents (dp_Insert D) rows (w_events w) = (None, table)" "dp_Marshal D (resp\<lparr>br_Accepted := acc\<rparr>) = Some out"
    "rs_Body rs = RawBody out"
  shows "acked D rq table rs"
proof -
  have "table = w_events w @ rows" by (rule InsertEvents_ok [OF assms(1,3)])
  moreover obtain body where "readBody (dp_gzip D) rq = Inr body" "dp_Unmarshal D body = Some req" using assms(2) by auto
  ultimately show ?thesis
    unfolding acked_def using assms(2,4,5)
    by (intro exI [of _ body] exI [of _ req] exI [of _ rows] exI [of _ "resp\<lparr>br_Accepted := acc\<rparr>"] exI [of _ out]) simp
qed

lemma task_step_tracks:
  assumes "waits_for_flush (dp_Insert D)" "task_tracks D rq (w_events w) tk" "task_step D rq t tk w = (tk', w')"
  shows "task_tracks D rq (w_events w') tk' \<and> (\<exists>ext. w_events w' = w_events w @ ext)"
proof (cases tk)
  case Arrived
  with assms(3) show ?thesis
    by (auto simp: Let_def split: prod.splits sum.splits option.splits read_error.splits if_splits)
next
  case (Parsed c b req)
  with assms(2,3) show ?thesis
    by (auto simp: Let_def split_events_eq valid_events_def rejects_def split: prod.splits sum.splits option.splits if_splits)
next
  case b: (Building c req resp es memo rows acc)
  show ?thesis
  proof (cases es)
    case Nil
    obtain err table where ins: "InsertEvents (dp_Insert D) rows (w_events w) = (err, table)" by fastforce
    have "\<exists>ext. table = w_events w @ ext" using InsertEvents_extends [of "dp_Insert D" rows "w_events w"] ins by simp
    moreover have "acked D rq table rs" if "err = None" "dp_Marshal D (resp\<lparr>br_Accepted := acc\<rparr>) = Some out"
        "rs_Body rs = RawBody out" for rs out
      by (rule insert_acks [OF assms(1) _ _ that(2,3), where w = w and req = req and memo = memo and rows = rows and c = c])
        (use assms(2) b Nil ins that(1) in simp_all)
    ultimately show ?thesis using assms(3) b Nil ins by (auto split: option.splits)
  next
    case (Cons e es')
    let ?st = "\<lparr>ls_memo = memo, ls_offsets = w_offsets w, ls_skew = w_skew w, ls_rows = rows, ls_accepted = acc\<rparr>"
    obtain x st where off: "get_offset D (session_key c e) (CandidateOffset (b_SentAt req) t) ?st = (x, st)" by fastforce
    from get_offset_rows [OF off] assms(2,3) b Cons off show ?thesis by (cases x) (auto simp: Let_def)
  qed
next
  case (Done rs)
  with assms(2,3) show ?thesis by auto
qed

fun durable_action :: "('r, 'o) action \<Rightarrow> bool" where
  "durable_action (Arrive p D rq t) \<longleftrightarrow> waits_for_flush (dp_Insert D)"
| "durable_action _ \<longleftrightarrow> True"

interpretation tracked: shared_invariant "\<lambda>_. True"
  "\<lambda>D rq tk w. waits_for_flush (dp_Insert D) \<and> task_tracks D rq (w_events w) tk" durable_action
proof (unfold_locales, goal_cases)
  case (2 w D rq tk t tk' w')
  then show ?case using task_step_tracks [of D rq w tk t tk' w'] by blast
next
  case (3 w D rq tk t tk' w' D' rq' tk'')
  then show ?case
    using task_step_tracks [of D rq w tk t tk' w'] task_tracks_mono [of D' rq' "w_events w" tk''] by auto
qed auto

text \<open>
  C5. No acknowledgement is ever ahead of storage: in every state the cluster can reach, for every request that was
  answered 200, by any pod, at any moment and with any other requests half done, the events table holds
  a row for each event the answer lists as accepted; the answer accepts exactly the valid events of the
  request and rejects the others. A client that deletes what was accepted loses nothing.
\<close>

theorem acknowledged_events_are_stored:
  assumes "reachable R durable_action s0 ops s" "cs_flights s0 = []" "f \<in> set (cs_flights s)"
    and "fl_task f = Done rs" "rs_Code rs = 200"
  shows "\<exists>body req rows resp out. readBody (dp_gzip (fl_deps f)) (fl_request f) = Inr body \<and>
    dp_Unmarshal (fl_deps f) body = Some req \<and> dp_Marshal (fl_deps f) resp = Some out \<and> rs_Body rs = RawBody out \<and>
    br_Accepted resp = map e_EventId (valid_events (fl_deps f) req) \<and> br_Rejected resp = rejects (fl_deps f) req \<and>
    set rows \<subseteq> set (w_events (cs_world s)) \<and> map r_EventID rows = br_Accepted resp"
proof -
  have "tracked.holds s0" using assms(2) by (simp add: tracked.holds_def)
  from tracked.reachable_holds [OF assms(1) this] assms(3-5) have "acked (fl_deps f) (fl_request f) (w_events (cs_world s)) rs"
    by (auto simp: tracked.holds_def)
  then show ?thesis unfolding acked_def .
qed

lemma two_deliveries_done:
  "map fl_task (cs_flights (snd (run_actions mem_redis two_deliveries idle_cluster))) =
     replicate 2 (Done \<lparr>rs_Code = 200, rs_Header = json_header, rs_Body = RawBody ''ok''\<rparr>)"
  "map fl_deps (cs_flights (snd (run_actions mem_redis two_deliveries idle_cluster))) = [sample_at 0, sample_at (48 * Hour)]"
proof -
  have "empty_at 0 Map.empty" by (simp add: empty_at_def mem_view_def live_at_def)
  then show "map fl_task (cs_flights (snd (run_actions mem_redis two_deliveries idle_cluster))) =
      replicate 2 (Done \<lparr>rs_Code = 200, rs_Header = json_header, rs_Body = RawBody ''ok''\<rparr>)"
    "map fl_deps (cs_flights (snd (run_actions mem_redis two_deliveries idle_cluster))) = [sample_at 0, sample_at (48 * Hour)]"
    by (simp_all add: two_deliveries_def idle_cluster_def sample_at_steps sample_admits(2) Let_def sample_world_def
        Postgres_GetOrSet_def case_prod_unfold eval_nat_numeral del: task_step.simps)
qed

theorem acknowledged_events_are_stored_witness:
  "\<exists>row \<in> set (w_events (cs_world (snd (run_actions mem_redis two_deliveries idle_cluster)))). r_EventID row = e_EventId sample_event"
proof -
  obtain ops s where run: "run_actions mem_redis two_deliveries idle_cluster = (ops, s)" by fastforce
  have ok: "\<forall>a \<in> set two_deliveries. durable_action a"
    by (simp add: two_deliveries_def sample_at_def sample_deps_def sync_conn_waits)
  obtain f g where fg: "cs_flights s = [f, g]" "fl_task f = Done \<lparr>rs_Code = 200, rs_Header = json_header, rs_Body = RawBody ''ok''\<rparr>"
    "fl_deps f = sample_at 0"
    using two_deliveries_done run by (auto simp: eval_nat_numeral map_eq_Cons_conv)
  have "cs_flights idle_cluster = []" by (simp add: idle_cluster_def)
  from acknowledged_events_are_stored [OF reachable_run_actions [OF ok run] this _ fg(2)] fg
  obtain rows :: "Row list" where "set rows \<subseteq> set (w_events (cs_world s))" "map r_EventID rows = [e_EventId sample_event]"
    by (auto simp: sample_at_def sample_deps_def valid_events_def sample_batch_valid)
  then show ?thesis using run by (auto simp: map_eq_Cons_conv)
qed

end
