(* ===== verification/Concurrent_Exchange.thy ===== *)
theory Concurrent_Exchange
  imports Service_Main Redis_Traffic
begin

text \<open>
  Token exchanges in flight. As \<open>Concurrent\<close> does for batches, an exchange of \<open>POST /v1/auth/token\<close> is cut at its
  accesses to shared state (the lookup of the client id, the client's ceiling, the challenge, the install
  table), and any number of them, on any pods, are interleaved with all other traffic on Redis, the
  issuing of challenges included. An exchange that runs alone computes \<open>NewToken\<close>; one that is never
  scheduled again is a request whose pod has died.
\<close>

section \<open>An exchange in steps\<close>

datatype exchange =
    Entered
  | Resolved TokenRequest string
  | Passed TokenRequest string
  | Tiered TokenRequest string string uint8
  | Granted TokenRequest string Claims response
  | Ended response

fun exchange_step :: "('r, 'd) TokenDeps \<Rightarrow> http_request \<Rightarrow> gotime \<Rightarrow> exchange \<Rightarrow> ('r, 'd) token_world \<Rightarrow>
    exchange \<times> ('r, 'd) token_world" where
  "exchange_step D rq now Entered w =
     (case readBody (td_gzip D) rq of
        Inl _ \<Rightarrow> (Ended (httpError Map.empty 400 ''unreadable body''), w)
      | Inr body \<Rightarrow>
          (case td_Unmarshal D body of
             None \<Rightarrow> (Ended (httpError Map.empty 400 ''malformed request''), w)
           | Some req \<Rightarrow>
               (case td_ResolveTenant D (t_ClientId req) of
                  None \<Rightarrow> (Ended (httpError Map.empty 401 ''unknown client_id''), w)
                | Some tenantID \<Rightarrow> (Resolved req tenantID, w))))"
| "exchange_step D rq now (Resolved req tenantID) w =
     (case client_ceiling D (''rl:token:'' @ t_ClientId req) (tw_redis w) of
        (Some stop, r') \<Rightarrow> (Ended stop, w\<lparr>tw_redis := r'\<rparr>)
      | (None, r') \<Rightarrow> (Passed req tenantID, w\<lparr>tw_redis := r'\<rparr>))"
| "exchange_step D rq now (Passed req tenantID) w =
     (case assign_tier D req (tw_redis w) of ((subject, tier), r') \<Rightarrow>
        (Tiered req tenantID subject tier, w\<lparr>tw_redis := r'\<rparr>))"
| "exchange_step D rq now (Tiered req tenantID subject tier) w =
     (case td_IssueInstall D tenantID (t_Platform req) subject (deviceKey req) tier (tw_db w) of
        (Inl _, db') \<Rightarrow> (Ended (httpError Map.empty 503 ''install issuance unavailable''), w\<lparr>tw_db := db'\<rparr>)
      | (Inr installID, db') \<Rightarrow>
          (Granted req subject \<lparr>c_TenantID = tenantID, c_InstallID = installID, c_Scope = ScopeWriteEvents, c_TrustTier = tier\<rparr>
             (mint_for D tenantID installID tier now), w\<lparr>tw_db := db'\<rparr>))"
| "exchange_step D rq now (Granted req subject c rs) w = (Granted req subject c rs, w)"
| "exchange_step D rq now (Ended rs) w = (Ended rs, w)"

fun answer :: "exchange \<Rightarrow> response option" where
  "answer (Granted req subject c rs) = Some rs"
| "answer (Ended rs) = Some rs"
| "answer _ = None"

fun run_exchange :: "('r, 'd) TokenDeps \<Rightarrow> http_request \<Rightarrow> gotime \<Rightarrow> nat \<Rightarrow> exchange \<Rightarrow> ('r, 'd) token_world \<Rightarrow>
    exchange \<times> ('r, 'd) token_world" where
  "run_exchange D rq now 0 x w = (x, w)"
| "run_exchange D rq now (Suc n) x w = (case exchange_step D rq now x w of (x', w') \<Rightarrow> run_exchange D rq now n x' w')"

text \<open>
  The steps are the handler's: an exchange that is left alone is answered after four accesses, with the
  answer and the effects of \<open>NewToken\<close>.
\<close>

lemma solo_exchange_is_NewToken:
  "map_prod answer id (run_exchange D rq now 4 Entered w) = map_prod Some id (NewToken D rq now w)"
  by (auto simp: numeral_eq_Suc NewToken_def split: sum.splits option.splits prod.splits)

section \<open>A cluster\<close>

record 'r exchange_flight =
  xf_deps :: "('r, control_db) TokenDeps"
  xf_request :: http_request
  xf_at :: gotime
  xf_task :: exchange

record 'r exchange_cluster =
  xc_world :: "('r, control_db) token_world"
  xc_flights :: "'r exchange_flight list"

datatype 'r exchange_action = XArrive "('r, control_db) TokenDeps" http_request gotime | XWork nat | XOther redis_op

fun xact :: "'r redis \<Rightarrow> 'r exchange_action \<Rightarrow> 'r exchange_cluster \<Rightarrow> 'r exchange_cluster" where
  "xact R (XArrive D rq now) s =
     s\<lparr>xc_flights := xc_flights s @ [\<lparr>xf_deps = D, xf_request = rq, xf_at = now, xf_task = Entered\<rparr>]\<rparr>"
| "xact R (XWork i) s =
     (if i < length (xc_flights s) then
        (let f = xc_flights s ! i in
         case exchange_step (xf_deps f) (xf_request f) (xf_at f) (xf_task f) (xc_world s) of
           (x, w) \<Rightarrow> \<lparr>xc_world = w, xc_flights = (xc_flights s)[i := f\<lparr>xf_task := x\<rparr>]\<rparr>)
      else s)"
| "xact R (XOther op) s = s\<lparr>xc_world := (xc_world s)\<lparr>tw_redis := op_state R op (tw_redis (xc_world s))\<rparr>\<rparr>"

text \<open>The Redis operation of a step, if it has one.\<close>

fun exchange_ops :: "('r, 'd) TokenDeps \<Rightarrow> exchange \<Rightarrow> redis_op list" where
  "exchange_ops D (Resolved req tid) = (if td_RateLimit D then
      [OpAllowClient (td_RateNet D) (''rl:token:'' @ t_ClientId req) tokenRatePerMinute tokenRateWindow] else [])"
| "exchange_ops D (Passed req tid) = [OpConsume (td_ChallengeNet D) (t_ClientId req) (t_Platform req) (t_Challenge req)]"
| "exchange_ops D _ = []"

fun xact_ops :: "'r exchange_action \<Rightarrow> 'r exchange_cluster \<Rightarrow> redis_op list" where
  "xact_ops (XArrive D rq now) s = []"
| "xact_ops (XWork i) s = (if i < length (xc_flights s) then
      (let f = xc_flights s ! i in exchange_ops (xf_deps f) (xf_task f)) else [])"
| "xact_ops (XOther op) s = [op]"

text \<open>
  How \<open>main.go\<close> wires an exchange, but for the attestor: all pods use one Redis server and one install table.
\<close>

fun wired :: "'r redis \<Rightarrow> 'r exchange_action \<Rightarrow> bool" where
  "wired R (XArrive D rq now) \<longleftrightarrow> td_Redis D = R \<and> (\<exists>rand pg. td_IssueInstall D = IssueInstall rand pg)"
| "wired R (XWork i) \<longleftrightarrow> True"
| "wired R (XOther op) \<longleftrightarrow> wf_op op"

lemma tokenDeps_wired: "wired R (XArrive (tokenDeps J m R e db) rq now)"
  by (auto simp: tokenDeps_def)

inductive exchanges :: "'r redis \<Rightarrow> 'r exchange_cluster \<Rightarrow> redis_op list \<Rightarrow> 'r exchange_cluster \<Rightarrow> bool"
  for R s0 where
  start: "exchanges R s0 [] s0"
| action: "exchanges R s0 ops s \<Longrightarrow> wired R a \<Longrightarrow> exchanges R s0 (ops @ xact_ops a s) (xact R a s)"

section \<open>Every privileged exchange is paid for\<close>

text \<open>A challenge that was drawn for the key \<open>k\<close>, and an exchange that got tier 0 for it.\<close>

fun issues_nonce :: "string \<Rightarrow> string \<Rightarrow> redis_op \<Rightarrow> bool" where
  "issues_nonce k ch (OpIssue (Some raw) net c p) \<longleftrightarrow> challenge_key c p = k \<and> RawURLEncode raw = ch"
| "issues_nonce k ch _ \<longleftrightarrow> False"

definition for_nonce :: "string \<Rightarrow> string \<Rightarrow> TokenRequest \<Rightarrow> bool" where
  "for_nonce k ch req \<longleftrightarrow> challenge_key (t_ClientId req) (t_Platform req) = k \<and> t_Challenge req = ch"

fun privileged :: "string \<Rightarrow> string \<Rightarrow> exchange \<Rightarrow> bool" where
  "privileged k ch (Tiered req tid subject tier) \<longleftrightarrow> tier = 0 \<and> for_nonce k ch req"
| "privileged k ch (Granted req subject c rs) \<longleftrightarrow> c_TrustTier c = 0 \<and> for_nonce k ch req"
| "privileged k ch _ \<longleftrightarrow> False"

definition nonce_at :: "('r \<Rightarrow> gotime \<Rightarrow> string \<Rightarrow> entry) \<Rightarrow> 'r \<Rightarrow> gotime \<Rightarrow> string \<Rightarrow> string option" where
  "nonce_at view r t k = map_option fst (view r t k)"

definition last_time :: "gotime \<Rightarrow> redis_op list \<Rightarrow> gotime" where
  "last_time t ops = last (t # op_times ops)"

lemma last_time_append: "last_time t (xs @ ys) = last_time (last_time t xs) ys"
  by (simp add: last_time_def)

lemma filter_update:
  assumes "i < length xs"
  shows "length (filter P (xs[i := y])) + of_bool (P (xs ! i)) = length (filter P xs) + of_bool (P y)"
proof -
  have "length (filter P xs) = length (filter P (take i xs @ xs ! i # drop (Suc i) xs))"
    using id_take_nth_drop [OF assms] by simp
  then show ?thesis by (simp add: upd_conv_take_nth_drop [OF assms])
qed

context redis_server
begin

lemma nonce_later: "t \<le> t' \<Longrightarrow> nonce_at view r t' k = Some ch \<Longrightarrow> nonce_at view r t k = Some ch"
  using passes [of t t' r k] by (auto simp: nonce_at_def live_at_def split: option.splits if_splits)

lemma challenge_key_other: "challenge_key c p \<noteq> rateKey cl now" "challenge_key c p \<noteq> dayKey cl now"
    "\<not> client_rate_key (challenge_key c p)"
  by (simp_all add: challenge_key_def rateKey_def dayKey_def client_rate_key_def HasPrefix_def)

lemma op_nonce:
  assumes "ran_at (op_net x) = Some u" "wf_op x" "nonce_at view (op_state R x r) u (challenge_key c p) = Some ch"
  shows "nonce_at view r u (challenge_key c p) = Some ch \<or> issues_nonce (challenge_key c p) ch x"
proof (cases x)
  case (OpAllow net cl lm n now)
  obtain res r' where run: "Allow R net cl lm n now r = (res, r')" by fastforce
  from OpAllow assms(1) have ran: "ran_at net = Some u" by simp
  have "view r' u (challenge_key c p) = view r u (challenge_key c p)"
    by (cases rule: Allow_cases [OF ran run]) (simp_all add: challenge_key_other)
  with OpAllow run assms(3) show ?thesis by (simp add: nonce_at_def)
next
  case (OpAllowClient net k limit window)
  obtain res r' where run: "clientRateScript R u k 60 r = (res, r')" by fastforce
  have "challenge_key c p \<noteq> k" using assms(2) challenge_key_other(3) OpAllowClient by auto
  then have "view r' u (challenge_key c p) = view r u (challenge_key c p)"
    by (cases rule: clientRateScript_cases [OF _ run]) simp_all
  moreover have "op_state R x r = r'"
    using run assms(1,2) OpAllowClient
    by (cases net) (auto simp: AllowClient_def run_script_def whole_seconds_def split: option.splits)
  ultimately show ?thesis using assms(3) by (simp add: nonce_at_def)
next
  case (OpIssue rand net c' p')
  with SET [of "5 * Minute" u "challenge_key c' p'" _ r] assms(1,3) show ?thesis
    by (cases net; cases rand)
      (auto simp: Issue_def run_script_def Let_def production_challenges_def nonce_at_def split: if_splits)
next
  case (OpConsume net c' p' guess)
  with GETDEL [of u "challenge_key c' p'" r] assms(1,3) show ?thesis
    by (cases net) (auto simp: Consume_def run_script_def nonce_at_def split: option.splits prod.splits if_splits)
qed

lemma op_books:
  assumes "sorted (t # op_times [x])" "wf_op x" "k = challenge_key c p"
  shows "of_bool (nonce_at view (op_state R x r) (last_time t [x]) k = Some ch) \<le>
    of_bool (nonce_at view r t k = Some ch) + length (filter (issues_nonce k ch) [x])"
proof (cases "ran_at (op_net x)")
  case None
  with op_refused [OF None, of R r] show ?thesis by (simp add: last_time_def op_times_def)
next
  case (Some u)
  then have u: "last_time t [x] = u" "t \<le> u" using assms(1) by (simp_all add: last_time_def op_times_def)
  have "nonce_at view r t k = Some ch \<or> issues_nonce k ch x" if "nonce_at view (op_state R x r) u k = Some ch"
    using op_nonce [OF Some assms(2)] that assms(3) nonce_later [OF u(2)] by blast
  then show ?thesis using u(1) by auto
qed

lemma consume_books:
  assumes "Consume R net c p ch r = (True, r')" "sorted (t # op_times [OpConsume net c p ch])" "k = challenge_key c p"
  shows "nonce_at view r t k = Some ch \<and> nonce_at view r' (last_time t [OpConsume net c p ch]) k = None"
proof -
  obtain u where u: "net = Answered u" "outstanding_of view r u c p = Some ch" "outstanding_of view r' u c p = None"
    by (rule ch.consume_ok [OF assms(1)])
  then have "t \<le> u" "last_time t [OpConsume net c p ch] = u" using assms(2) by (simp_all add: op_times_def last_time_def)
  with u assms(3) nonce_later [of t u r k ch] show ?thesis by (simp add: nonce_at_def outstanding_of_def)
qed

end

lemma ceiling_op:
  "snd (client_ceiling D k r) = (if td_RateLimit D
     then op_state (td_Redis D) (OpAllowClient (td_RateNet D) k tokenRatePerMinute tokenRateWindow) r else r)"
  by (simp add: client_ceiling_def split: prod.splits sum.splits)

lemma last_time_Nil [simp]: "last_time t [] = t"
  by (simp add: last_time_def op_times_def)

context redis_server
begin

text \<open>One step of an exchange never gains more than it spends.\<close>

lemma resolved_books:
  assumes "td_Redis D = R" "sorted (t # op_times (exchange_ops D (Resolved req tid)))" "k = challenge_key c p"
  shows "of_bool (nonce_at view (snd (client_ceiling D (''rl:token:'' @ t_ClientId req) r))
      (last_time t (exchange_ops D (Resolved req tid))) k = Some ch) \<le> (of_bool (nonce_at view r t k = Some ch) :: nat)"
proof (cases "td_RateLimit D")
  case True
  let ?op = "OpAllowClient (td_RateNet D) (''rl:token:'' @ t_ClientId req) tokenRatePerMinute tokenRateWindow"
  have "wf_op ?op" by (simp add: client_rate_key_def HasPrefix_def tokenRateWindow_def)
  with op_books [of t ?op k c p r ch] assms True show ?thesis by (simp add: ceiling_op)
qed (simp add: ceiling_op)

lemma passed_books:
  assumes "td_Redis D = R" "sorted (t # op_times (exchange_ops D (Passed req tid)))" "k = challenge_key c p"
    "assign_tier D req r = ((subject, tier), r')"
  shows "of_bool (tier = 0 \<and> for_nonce k ch req) +
      of_bool (nonce_at view r' (last_time t (exchange_ops D (Passed req tid))) k = Some ch) \<le>
    (of_bool (nonce_at view r t k = Some ch) :: nat)"
proof -
  let ?op = "OpConsume (td_ChallengeNet D) (t_ClientId req) (t_Platform req) (t_Challenge req)"
  obtain ok where run: "Consume R (td_ChallengeNet D) (t_ClientId req) (t_Platform req) (t_Challenge req) r = (ok, r')"
    using assign_tier_cases(1) [OF assms(4)] assms(1) by (metis prod.collapse)
  show ?thesis
  proof (cases "tier = 0 \<and> for_nonce k ch req")
    case True
    then have "ok" using assign_tier_cases(2) [OF assms(4)] run assms(1) by (auto split: if_splits)
    with consume_books [of "td_ChallengeNet D" "t_ClientId req" "t_Platform req" "t_Challenge req" r r' t k] run assms(2) True
    show ?thesis by (simp add: for_nonce_def)
  next
    case False
    with op_books [of t ?op k c p r ch] run assms(2,3) show ?thesis by simp
  qed
qed

lemma step_books:
  assumes "td_Redis D = R" "exchange_step D rq now x w = (x', w')" "sorted (t # op_times (exchange_ops D x))"
    "k = challenge_key c p"
  shows "of_bool (privileged k ch x') + of_bool (nonce_at view (tw_redis w') (last_time t (exchange_ops D x)) k = Some ch) \<le>
    of_bool (privileged k ch x) + (of_bool (nonce_at view (tw_redis w) t k = Some ch) :: nat)"
proof (cases x)
  case Entered
  then have "w' = w" "\<not> privileged k ch x'"
    using assms(2) by (auto split: sum.splits option.splits)
  with Entered show ?thesis by simp
next
  case (Resolved req tid)
  then have "tw_redis w' = snd (client_ceiling D (''rl:token:'' @ t_ClientId req) (tw_redis w))" "\<not> privileged k ch x'"
    using assms(2) by (auto split: prod.splits option.splits)
  with Resolved resolved_books [OF assms(1) _ assms(4)] assms(3) show ?thesis by simp
next
  case (Passed req tid)
  obtain subject tier r' where run: "assign_tier D req (tw_redis w) = ((subject, tier), r')" by (metis prod.exhaust)
  with Passed assms(2) have "x' = Tiered req tid subject tier" "tw_redis w' = r'" by auto
  with Passed passed_books [OF assms(1) _ assms(4) run] assms(3) show ?thesis by simp
next
  case (Tiered req tid subject tier)
  then have "tw_redis w' = tw_redis w" "privileged k ch x' \<Longrightarrow> privileged k ch x"
    using assms(2) by (auto split: prod.splits sum.splits)
  with Tiered show ?thesis by auto
qed (use assms(2) in auto)

end

definition grants :: "string \<Rightarrow> string \<Rightarrow> 'r exchange_cluster \<Rightarrow> nat" where
  "grants k ch s = length (filter (\<lambda>f. privileged k ch (xf_task f)) (xc_flights s))"

text \<open>Every exchange in flight uses the cluster's Redis server and install table.\<close>

definition all_wired :: "'r redis \<Rightarrow> 'r exchange_cluster \<Rightarrow> bool" where
  "all_wired R s \<longleftrightarrow> (\<forall>f \<in> set (xc_flights s). td_Redis (xf_deps f) = R \<and> (\<exists>rand pg. td_IssueInstall (xf_deps f) = IssueInstall rand pg))"

lemma xact_wired:
  assumes "all_wired R s" "wired R a"
  shows "all_wired R (xact R a s)"
  using assms
  by (cases a) (auto simp: all_wired_def Let_def split: prod.splits dest!: set_update_subset_insert [THEN subsetD])

lemma exchange_ops_pay_nothing: "filter (issues_nonce k ch) (exchange_ops D x) = []"
  by (cases x) simp_all

lemma exchanges_paid:
  assumes "exchanges R s0 ops s" "redis_server R view" "xc_flights s0 = []" "sorted (t0 # op_times ops)" "k = challenge_key c p"
  shows "all_wired R s \<and> grants k ch s + of_bool (nonce_at view (tw_redis (xc_world s)) (last_time t0 ops) k = Some ch) \<le>
    length (filter (issues_nonce k ch) ops) + of_bool (nonce_at view (tw_redis (xc_world s0)) t0 k = Some ch)"
  using assms(1,4)
proof (induction rule: exchanges.induct)
  case start
  then show ?case using assms(3) by (simp add: grants_def all_wired_def)
next
  case (action ops s a)
  let ?t = "last_time t0 ops"
  have sorted: "sorted (t0 # op_times ops)" "sorted (?t # op_times (xact_ops a s))"
    using action.prems by (auto simp: last_time_def sorted_append)
  note IH = action.IH [OF sorted(1)]
  have "grants k ch (xact R a s) + of_bool (nonce_at view (tw_redis (xc_world (xact R a s))) (last_time ?t (xact_ops a s)) k = Some ch) \<le>
      grants k ch s + of_bool (nonce_at view (tw_redis (xc_world s)) ?t k = Some ch) + length (filter (issues_nonce k ch) (xact_ops a s))"
  proof (cases a)
    case (XArrive D rq now)
    then show ?thesis by (simp add: grants_def)
  next
    case (XOther x)
    with redis_server.op_books [OF assms(2) _ _ assms(5), of ?t x "tw_redis (xc_world s)" ch] sorted(2) action.hyps(2)
    show ?thesis by (simp add: grants_def)
  next
    case (XWork i)
    show ?thesis
    proof (cases "i < length (xc_flights s)")
      case True
      let ?f = "xc_flights s ! i"
      obtain x w where step: "exchange_step (xf_deps ?f) (xf_request ?f) (xf_at ?f) (xf_task ?f) (xc_world s) = (x, w)" by fastforce
      have "td_Redis (xf_deps ?f) = R" using IH True by (auto simp: all_wired_def)
      from redis_server.step_books [OF assms(2) this step _ assms(5), of ?t ch] sorted(2) XWork True
        filter_update [OF True, of "\<lambda>f. privileged k ch (xf_task f)" "?f\<lparr>xf_task := x\<rparr>"]
      show ?thesis by (simp add: grants_def step exchange_ops_pay_nothing Let_def)
    qed (use XWork in \<open>simp add: grants_def\<close>)
  qed
  with IH action.hyps(2) show ?case by (simp add: last_time_append xact_wired)
qed

text \<open>
  C6. Every privileged token is paid for with a challenge of its own: in every state the pods can reach, with exchanges
  interleaved step by step, stopped anywhere and mixed with all other traffic on Redis, the exchanges
  that were given tier 0 for one client, platform and challenge are never more than the times that
  challenge was drawn for them. Two exchanges that race for one challenge cannot both win, and a captured
  exchange that is replayed, at once or later, gains nothing.
\<close>

theorem tier_0_is_paid_for:
  assumes "redis_server R view" "exchanges R s0 ops s" "xc_flights s0 = []" "sorted (t0 # op_times ops)"
    and "view (tw_redis (xc_world s0)) t0 (challenge_key c p) = None"
  shows "length (filter (\<lambda>f. privileged (challenge_key c p) ch (xf_task f)) (xc_flights s)) \<le>
    length (filter (issues_nonce (challenge_key c p) ch) ops)"
  using exchanges_paid [OF assms(2,1,3,4) refl, of c p ch] assms(5) by (simp add: grants_def nonce_at_def)

text \<open>Two pods exchange one captured request; both have passed the ceiling when the first spends the challenge.\<close>

fun run_xactions :: "'r redis \<Rightarrow> 'r exchange_action list \<Rightarrow> 'r exchange_cluster \<Rightarrow> redis_op list \<times> 'r exchange_cluster" where
  "run_xactions R [] s = ([], s)"
| "run_xactions R (a # as) s = (case run_xactions R as (xact R a s) of (ops, s') \<Rightarrow> (xact_ops a s @ ops, s'))"

lemma exchanges_run:
  assumes "\<forall>a \<in> set as. wired R a" "run_xactions R as s = (ops, s')" "exchanges R s0 ops0 s"
  shows "exchanges R s0 (ops0 @ ops) s'"
  using assms
proof (induction as arbitrary: s ops ops0)
  case (Cons a as)
  obtain ops2 where "run_xactions R as (xact R a s) = (ops2, s')" "ops = xact_ops a s @ ops2"
    using Cons.prems(2) by (auto split: prod.splits)
  with Cons.IH [OF _ _ exchanges.action [OF Cons.prems(3), of a]] Cons.prems(1) show ?case by simp
qed simp

definition captured :: TokenRequest where
  "captured = \<lparr>t_ClientId = ''c1'', t_Platform = ''ios'', t_Attestation = ''blob'', t_Challenge = ''TWFu'', t_DeviceHint = ''h''\<rparr>"

definition racing_deps :: "string \<Rightarrow> (keyspace, control_db) TokenDeps" where
  "racing_deps raw = two_tier_deps\<lparr>td_IssueInstall := IssueInstall (Some raw) Executed, td_ChallengeNet := Answered 5,
     td_Unmarshal := (\<lambda>_. Some captured)\<rparr>"

definition race :: "keyspace exchange_action list" where
  "race = [XOther (OpIssue (Some ''Man'') (Answered 0) ''c1'' ''ios''), XArrive (racing_deps ''A'') post 1, XArrive (racing_deps ''B'') post 1,
     XWork 0, XWork 1, XWork 0, XWork 1, XWork 1, XWork 0]"

definition quiet :: "keyspace exchange_cluster" where
  "quiet = \<lparr>xc_world = \<lparr>tw_redis = Map.empty, tw_db = sample_db\<rparr>, xc_flights = []\<rparr>"

lemma racing_fields:
  "td_Redis (racing_deps raw) = mem_redis" "td_RateLimit (racing_deps raw) = False" "td_ChallengeNet (racing_deps raw) = Answered 5"
  "td_ResolveTenant (racing_deps raw) cid = Some ''t1''" "td_Unmarshal (racing_deps raw) b = Some captured"
  "td_IssueInstall (racing_deps raw) = IssueInstall (Some raw) Executed" "td_Attestor (racing_deps raw) pl bl ch = (''subj'', True)"
  by (simp_all add: racing_deps_def two_tier_deps_def sample_token_deps_def)

lemma captured_fields:
  "t_ClientId captured = ''c1''" "t_Platform captured = ''ios''" "t_Challenge captured = ''TWFu''"
  by (simp_all add: captured_def)

lemma race_wired: "\<forall>a \<in> set race. wired mem_redis a"
  by (auto simp: race_def racing_fields)

lemma race_steps:
  "exchange_step (racing_deps raw) post now Entered w = (Resolved captured ''t1'', w)"
  "exchange_step (racing_deps raw) post now (Resolved captured tid) w = (Passed captured tid, w)"
  "tw_redis w (challenge_key ''c1'' ''ios'') = Some (''TWFu'', Some dl) \<Longrightarrow> 5 < dl \<Longrightarrow>
    exchange_step (racing_deps raw) post now (Passed captured tid) w =
      (Tiered captured tid ''subj'' 0, w\<lparr>tw_redis := (tw_redis w)(challenge_key ''c1'' ''ios'' := None)\<rparr>)"
  "tw_redis w (challenge_key ''c1'' ''ios'') = None \<Longrightarrow>
    exchange_step (racing_deps raw) post now (Passed captured tid) w =
      (Tiered captured tid [] 1, w\<lparr>tw_redis := (tw_redis w)(challenge_key ''c1'' ''ios'' := None)\<rparr>)"
  by (simp_all add: racing_fields post_body client_ceiling_def assign_tier_def captured_def Consume_def run_script_def
      mem_redis_def mem_GET_def mem_view_def live_at_def)

lemma race_runs:
  obtains ops s where "run_xactions mem_redis race quiet = (ops, s)" "op_times ops = [0, 5, 5]"
    "filter (issues_nonce (challenge_key ''c1'' ''ios'') ''TWFu'') ops = [OpIssue (Some ''Man'') (Answered 0) ''c1'' ''ios'']"
    "map xf_task (xc_flights s) = [Tiered captured ''t1'' [] 1, Tiered captured ''t1'' ''subj'' 0]"
proof -
  have enc: "RawURLEncode ''Man'' = ''TWFu''" by (simp add: quantum_def url_digit_def of_char_def upt_rec)
  have issue: "op_state mem_redis (OpIssue (Some ''Man'') (Answered 0) ''c1'' ''ios'') Map.empty =
      [challenge_key ''c1'' ''ios'' \<mapsto> (''TWFu'', Some (5 * Minute))]"
    by (simp add: Issue_def enc run_script_def mem_redis_def production_challenges_def Let_def del: RawURLEncode.simps)
  obtain ops s where run: "run_xactions mem_redis race quiet = (ops, s)" by fastforce
  then have "map xf_task (xc_flights s) = [Tiered captured ''t1'' [] 1, Tiered captured ''t1'' ''subj'' 0]"
    "ops = [OpIssue (Some ''Man'') (Answered 0) ''c1'' ''ios'', OpConsume (Answered 5) ''c1'' ''ios'' ''TWFu'',
      OpConsume (Answered 5) ''c1'' ''ios'' ''TWFu'']"
    by (auto simp: race_def quiet_def issue race_steps racing_fields captured_fields
        simp del: op_state.simps exchange_step.simps)
  with that [OF run] enc show thesis by (simp add: op_times_def del: RawURLEncode.simps)
qed

theorem tier_0_is_paid_for_witness:
  "\<exists>ops s. run_xactions mem_redis race quiet = (ops, s) \<and>
     length (filter (\<lambda>f. privileged (challenge_key ''c1'' ''ios'') ''TWFu'' (xf_task f)) (xc_flights s)) \<le> 1 \<and>
     map xf_task (xc_flights s) = [Tiered captured ''t1'' [] 1, Tiered captured ''t1'' ''subj'' 0]"
proof (rule race_runs)
  fix ops s
  assume run: "run_xactions mem_redis race quiet = (ops, s)" "op_times ops = [0, 5, 5]"
    "filter (issues_nonce (challenge_key ''c1'' ''ios'') ''TWFu'') ops = [OpIssue (Some ''Man'') (Answered 0) ''c1'' ''ios'']"
    "map xf_task (xc_flights s) = [Tiered captured ''t1'' [] 1, Tiered captured ''t1'' ''subj'' 0]"
  have "exchanges mem_redis quiet ops s"
    using exchanges_run [OF race_wired run(1) exchanges.start] by simp
  from tier_0_is_paid_for [OF mem.redis_server_axioms this, of 0 "''c1''" "''ios''" "''TWFu''"] run show ?thesis
    by (simp add: quiet_def mem_view_def live_at_def)
qed

section \<open>Install ids under concurrency\<close>

text \<open>Every granted exchange carries the install id the table keeps for its tenant and anchor.\<close>

fun grant_in :: "control_db \<Rightarrow> exchange \<Rightarrow> bool" where
  "grant_in db (Granted req subject c rs) \<longleftrightarrow> install_of db (c_TenantID c, anchor_of subject (deviceKey req)) = Some (c_InstallID c)"
| "grant_in db _ \<longleftrightarrow> True"

definition grants_kept :: "'r exchange_cluster \<Rightarrow> bool" where
  "grants_kept s \<longleftrightarrow> installs_wf (tw_db (xc_world s)) \<and> (\<forall>f \<in> set (xc_flights s). grant_in (tw_db (xc_world s)) (xf_task f))"

lemma IssueInstall_grants:
  assumes "IssueInstall rand pg tid platform subject dk tier db = (res, db')"
  shows "grant_in db x \<Longrightarrow> grant_in db' x" "installs_wf db \<Longrightarrow> installs_wf db'"
    "res = Inr i \<Longrightarrow> install_of db' (tid, anchor_of subject dk) = Some i"
proof -
  let ?x = "(rand, pg, tid, platform, subject, dk, tier)"
  have run: "issue_install ?x db = (res, db')" using assms by (simp add: issue_install_def)
  show "grant_in db' x" if "grant_in db x"
    using that installs.keeps [of db _ _ ?x] run by (cases x) auto
  show "installs_wf db \<Longrightarrow> installs_wf db'" using IssueInstall_separates [OF _ assms] by blast
  show "res = Inr i \<Longrightarrow> install_of db' (tid, anchor_of subject dk) = Some i"
    using installs.answers [of ?x db i db'] run by (simp add: call_key_def)
qed

lemma step_grants:
  assumes "exchange_step D rq now x w = (x', w')" "td_IssueInstall D = IssueInstall rand pg" "installs_wf (tw_db w)"
    "grant_in (tw_db w) x"
  shows "installs_wf (tw_db w') \<and> grant_in (tw_db w') x' \<and> (\<forall>y. grant_in (tw_db w) y \<longrightarrow> grant_in (tw_db w') y)"
proof (cases x)
  case (Tiered req tid subject tier)
  obtain res db' where run: "IssueInstall rand pg tid (t_Platform req) subject (deviceKey req) tier (tw_db w) = (res, db')" by fastforce
  with Tiered assms(1,2) have "tw_db w' = db'" "grant_in db' x'"
    using IssueInstall_grants(3) [OF run] by (auto split: sum.splits)
  with IssueInstall_grants(1,2) [OF run] assms(3) show ?thesis by blast
qed (use assms in \<open>auto split: sum.splits option.splits prod.splits\<close>)

lemma exchanges_grants:
  assumes "exchanges R s0 ops s" "xc_flights s0 = []" "installs_wf (tw_db (xc_world s0))"
  shows "all_wired R s \<and> grants_kept s"
  using assms(1)
proof (induction rule: exchanges.induct)
  case start
  then show ?case using assms(2,3) by (simp add: grants_kept_def all_wired_def)
next
  case (action ops s a)
  have "grants_kept (xact R a s)"
  proof (cases a)
    case (XWork i)
    show ?thesis
    proof (cases "i < length (xc_flights s)")
      case True
      let ?f = "xc_flights s ! i"
      obtain x w where step: "exchange_step (xf_deps ?f) (xf_request ?f) (xf_at ?f) (xf_task ?f) (xc_world s) = (x, w)" by fastforce
      obtain rand pg where "td_IssueInstall (xf_deps ?f) = IssueInstall rand pg"
        using action.IH nth_mem [OF True] unfolding all_wired_def by blast
      from step_grants [OF step this] action.IH True
      have "installs_wf (tw_db w)" "grant_in (tw_db w) x" "\<forall>y. grant_in (tw_db (xc_world s)) y \<longrightarrow> grant_in (tw_db w) y"
        by (simp_all add: grants_kept_def)
      with action.IH XWork True step show ?thesis
        by (auto simp: grants_kept_def dest!: set_update_subset_insert [THEN subsetD])
    qed (use XWork action.IH in simp)
  qed (use action.IH in \<open>auto simp: grants_kept_def\<close>)
  with action xact_wired show ?case by blast
qed

text \<open>
  C13. Install identities are stable and never shared, also under concurrency: of any two exchanges that were granted, on any
  pods, in any interleaving, with lost replies and failed statements in between, the tokens carry the
  same install id exactly when they are for the same tenant and the same anchor (the attested subject, or
  the device key when there is none). Re-exchanging never gives a client a fresh rate-limit bucket, and
  nobody gets the bucket of another.
\<close>

theorem concurrent_installs_agree:
  assumes "exchanges R s0 ops s" "xc_flights s0 = []" "installs_wf (tw_db (xc_world s0))"
    and "f \<in> set (xc_flights s)" "xf_task f = Granted req subject c rs"
    and "f' \<in> set (xc_flights s)" "xf_task f' = Granted req' subject' c' rs'"
  shows "c_InstallID c = c_InstallID c' \<longleftrightarrow>
    c_TenantID c = c_TenantID c' \<and> anchor_of subject (deviceKey req) = anchor_of subject' (deviceKey req')"
proof -
  let ?db = "tw_db (xc_world s)"
  have kept: "grants_kept s" using exchanges_grants [OF assms(1-3)] by blast
  then have "installs_wf ?db" "grant_in ?db (xf_task f)" "grant_in ?db (xf_task f')"
    using assms(4,6) by (auto simp: grants_kept_def)
  with installs_wf_inj [of ?db _ "c_InstallID c"] assms(5,7) show ?thesis by fastforce
qed

text \<open>One device is exchanged twice at the same time, by pods that draw different candidates for its install id.\<close>

definition twice :: "keyspace exchange_action list" where
  "twice = [XArrive (racing_deps ''A'') post 1, XArrive (racing_deps ''B'') post 1,
     XWork 0, XWork 1, XWork 0, XWork 1, XWork 1, XWork 0, XWork 0, XWork 1]"

definition anchored_db :: control_db where
  "anchored_db = sample_db\<lparr>db_installs := [\<lparr>in_install_id = ''ins_41'', in_tenant_id = ''t1'', in_platform = ''ios'',
     in_trust_tier = 1, in_attest_subject = None, in_device_key = deviceKey captured\<rparr>]\<rparr>"

lemma granted_steps:
  "exchange_step (racing_deps ''A'') post now (Tiered captured ''t1'' [] 1) \<lparr>tw_redis = r, tw_db = sample_db\<rparr> =
     (Granted captured [] \<lparr>c_TenantID = ''t1'', c_InstallID = ''ins_41'', c_Scope = ScopeWriteEvents, c_TrustTier = 1\<rparr>
        (mint_for (racing_deps ''A'') ''t1'' ''ins_41'' 1 now), \<lparr>tw_redis = r, tw_db = anchored_db\<rparr>)"
  "\<exists>c rs w. exchange_step (racing_deps ''B'') post now (Tiered captured ''t1'' [] 1) \<lparr>tw_redis = r, tw_db = anchored_db\<rparr> =
     (Granted captured [] c rs, w) \<and> c_TenantID c = ''t1''"
proof -
  have hex: "hex_EncodeToString ''A'' = ''41''" by code_simp
  show "exchange_step (racing_deps ''A'') post now (Tiered captured ''t1'' [] 1) \<lparr>tw_redis = r, tw_db = sample_db\<rparr> =
     (Granted captured [] \<lparr>c_TenantID = ''t1'', c_InstallID = ''ins_41'', c_Scope = ScopeWriteEvents, c_TrustTier = 1\<rparr>
        (mint_for (racing_deps ''A'') ''t1'' ''ins_41'' 1 now), \<lparr>tw_redis = r, tw_db = anchored_db\<rparr>)"
    by (simp add: racing_fields captured_fields install_evals hex anchored_db_def)
  show "\<exists>c rs w. exchange_step (racing_deps ''B'') post now (Tiered captured ''t1'' [] 1) \<lparr>tw_redis = r, tw_db = anchored_db\<rparr> =
     (Granted captured [] c rs, w) \<and> c_TenantID c = ''t1''"
    by (simp add: racing_fields captured_fields install_evals anchored_db_def)
qed

lemma twice_wired: "\<forall>a \<in> set twice. wired mem_redis a"
  by (auto simp: twice_def racing_fields)

lemma twice_runs:
  obtains ops s rs c rs' where "run_xactions mem_redis twice quiet = (ops, s)" "c_TenantID c = ''t1''"
    "map xf_task (xc_flights s) = [Granted captured [] \<lparr>c_TenantID = ''t1'', c_InstallID = ''ins_41'', c_Scope = ScopeWriteEvents,
       c_TrustTier = 1\<rparr> rs, Granted captured [] c rs']"
proof -
  obtain c rs' w where second: "exchange_step (racing_deps ''B'') post 1 (Tiered captured ''t1'' [] 1)
      \<lparr>tw_redis = Map.empty, tw_db = anchored_db\<rparr> = (Granted captured [] c rs', w)" "c_TenantID c = ''t1''"
    using granted_steps(2) by blast
  obtain ops s where run: "run_xactions mem_redis twice quiet = (ops, s)" by fastforce
  then have "map xf_task (xc_flights s) = [Granted captured [] \<lparr>c_TenantID = ''t1'', c_InstallID = ''ins_41'',
      c_Scope = ScopeWriteEvents, c_TrustTier = 1\<rparr> (mint_for (racing_deps ''A'') ''t1'' ''ins_41'' 1 1), Granted captured [] c rs']"
    by (auto simp: twice_def quiet_def race_steps granted_steps(1) second racing_fields captured_fields simp del: exchange_step.simps)
  with that [OF run second(2)] show thesis .
qed

theorem concurrent_installs_agree_witness:
  "\<exists>ops s rs c rs'. run_xactions mem_redis twice quiet = (ops, s) \<and> c_InstallID c = ''ins_41'' \<and>
     map xf_task (xc_flights s) = [Granted captured [] \<lparr>c_TenantID = ''t1'', c_InstallID = ''ins_41'', c_Scope = ScopeWriteEvents,
       c_TrustTier = 1\<rparr> rs, Granted captured [] c rs']"
proof (rule twice_runs)
  fix ops s rs c rs'
  let ?c = "\<lparr>c_TenantID = ''t1'', c_InstallID = ''ins_41'', c_Scope = ScopeWriteEvents, c_TrustTier = 1\<rparr>"
  assume run: "run_xactions mem_redis twice quiet = (ops, s)" "c_TenantID c = ''t1''"
    "map xf_task (xc_flights s) = [Granted captured [] ?c rs, Granted captured [] c rs']"
  have reach: "exchanges mem_redis quiet ops s" using exchanges_run [OF twice_wired run(1) exchanges.start] by simp
  obtain f f' where f: "xc_flights s = [f, f']" "xf_task f = Granted captured [] ?c rs" "xf_task f' = Granted captured [] c rs'"
    using run(3) by (auto simp: map_eq_Cons_conv)
  have "installs_wf (tw_db (xc_world quiet))" "xc_flights quiet = []" by (simp_all add: quiet_def installs_wf_def sample_db_def)
  from concurrent_installs_agree [OF reach this(2,1) _ f(2) _ f(3)] f(1) run show ?thesis by auto
qed

end
