(* ===== verification/Json_Text.thy ===== *)
theory Json_Text
  imports Enrich Http_Io Go_Text
begin

text \<open>
  The JSON texts the service writes: the \<open>props\<close> column (\<open>propsJSON\<close> in \<open>enrich.go\<close>) and the bodies of errors and
  challenges. The other theories represent such a text by the object it denotes; here the text is
  computed as Go's \<open>encoding/json\<close> does it (quoting, HTML escapes, the replacement of invalid UTF-8), a
  reader for it is given, and reading what was written gives the object back, so that nothing is lost
  in the representation. The digits of a number are \<open>strconv\<close>'s, a parameter.
\<close>

section \<open>Strings\<close>

abbreviation byte :: "char \<Rightarrow> nat" where "byte c \<equiv> of_char c"

definition cont :: "char \<Rightarrow> bool" where
  "cont c \<longleftrightarrow> 0x80 \<le> byte c \<and> byte c \<le> 0xBF"

text \<open>\<open>utf8.DecodeRune\<close>: the length of the multi-byte sequence a string starts with, 0 when it is not valid.\<close>

fun rune_len :: "string \<Rightarrow> nat" where
  "rune_len (a # b # s) =
     (if 0xC2 \<le> byte a \<and> byte a \<le> 0xDF then (if cont b then 2 else 0)
      else case s of
        [] \<Rightarrow> 0
      | c # s' \<Rightarrow>
          if 0xE0 \<le> byte a \<and> byte a \<le> 0xEF then
            (if cont b \<and> cont c \<and> (byte a = 0xE0 \<longrightarrow> 0xA0 \<le> byte b) \<and> (byte a = 0xED \<longrightarrow> byte b \<le> 0x9F) then 3 else 0)
          else if 0xF0 \<le> byte a \<and> byte a \<le> 0xF4 then
            (case s' of [] \<Rightarrow> 0
             | d # _ \<Rightarrow> if cont b \<and> cont c \<and> cont d \<and> (byte a = 0xF0 \<longrightarrow> 0x90 \<le> byte b) \<and> (byte a = 0xF4 \<longrightarrow> byte b \<le> 0x8F)
                        then 4 else 0)
          else 0)"
| "rune_len _ = 0"

definition hex4 :: "nat \<Rightarrow> string" where
  "hex4 n = [hex_digit (n div 4096 mod 16), hex_digit (n div 256 mod 16), hex_digit (n div 16 mod 16), hex_digit (n mod 16)]"

definition escape_u :: "nat \<Rightarrow> string" where
  "escape_u n = CHR 0x5C # CHR ''u'' # hex4 n"

text \<open>One byte below 0x80.\<close>

definition escape_byte :: "char \<Rightarrow> string" where
  "escape_byte c =
     (if c = CHR 0x5C \<or> c = CHR 0x22 then [CHR 0x5C, c]
      else if c = CHR 0x08 then [CHR 0x5C, CHR ''b'']
      else if c = CHR 0x0C then [CHR 0x5C, CHR ''f'']
      else if c = CHR 0x0A then [CHR 0x5C, CHR ''n'']
      else if c = CHR 0x0D then [CHR 0x5C, CHR ''r'']
      else if c = CHR 0x09 then [CHR 0x5C, CHR ''t'']
      else if byte c < 0x20 \<or> c = CHR ''<'' \<or> c = CHR ''>'' \<or> c = CHR 0x26 then escape_u (byte c)
      else [c])"

function quoted :: "string \<Rightarrow> string" where
  "quoted [] = []"
| "quoted (a # s) =
     (if byte a < 0x80 then escape_byte a @ quoted s
      else let n = rune_len (a # s); r = take n (a # s) in
        if n = 0 then escape_u 0xFFFD @ quoted s
        else if r = [CHR 0xE2, CHR 0x80, CHR 0xA8] then escape_u 0x2028 @ quoted (drop n (a # s))
        else if r = [CHR 0xE2, CHR 0x80, CHR 0xA9] then escape_u 0x2029 @ quoted (drop n (a # s))
        else r @ quoted (drop n (a # s)))"
  by pat_completeness auto
termination by (relation "measure length") auto

definition json_string :: "string \<Rightarrow> string" where
  "json_string s = CHR 0x22 # quoted s @ [CHR 0x22]"

section \<open>Objects\<close>

text \<open>\<open>fmt\<close> is \<open>strconv.AppendFloat\<close> in the format \<open>encoding/json\<close> chooses; other floats were refused before.\<close>

fun scalar_text :: "(rat \<Rightarrow> string) \<Rightarrow> json_scalar \<Rightarrow> string" where
  "scalar_text fmt (JString s) = json_string s"
| "scalar_text fmt (JNumber (Fin x)) = fmt x"
| "scalar_text fmt (JNumber _) = []"
| "scalar_text fmt (JBool b) = (if b then ''true'' else ''false'')"

definition member_text :: "(rat \<Rightarrow> string) \<Rightarrow> string \<times> json_scalar \<Rightarrow> string" where
  "member_text fmt m = json_string (fst m) @ CHR '':'' # scalar_text fmt (snd m)"

definition object_text :: "(rat \<Rightarrow> string) \<Rightarrow> json_object \<Rightarrow> string" where
  "object_text fmt obj = CHR ''{'' # Join (map (member_text fmt) obj) '','' @ ''}''"

definition props_text :: "(rat \<Rightarrow> string) \<Rightarrow> (string \<times> Value) list \<Rightarrow> string" where
  "props_text fmt props =
     (if props = [] then ''{}''
      else case json_Marshal (flatten_props props) of None \<Rightarrow> ''{}'' | Some b \<Rightarrow> object_text fmt b)"

text \<open>What goes over the wire: \<open>json.Encoder\<close> ends its text with a line feed, \<open>http.Error\<close> too.\<close>

fun body_text :: "resp_body \<Rightarrow> string" where
  "body_text (ErrorBody msg) = object_text (\<lambda>_. []) [(''error'', JString msg)] @ [CHR 0x0A]"
| "body_text (ChallengeBody nonce) = object_text (\<lambda>_. []) [(''challenge'', JString nonce)] @ [CHR 0x0A]"
| "body_text (TextBody msg) = msg @ [CHR 0x0A]"
| "body_text (RawBody s) = s"
| "body_text NoBody = []"

section \<open>A reader\<close>

definition hex_val :: "char \<Rightarrow> nat option" where
  "hex_val c = (let k = byte c in if 48 \<le> k \<and> k \<le> 57 then Some (k - 48)
     else if 97 \<le> k \<and> k \<le> 102 then Some (k - 87) else if 65 \<le> k \<and> k \<le> 70 then Some (k - 55) else None)"

text \<open>The UTF-8 bytes of a code point below 0x10000.\<close>

definition utf8_bytes :: "nat \<Rightarrow> string" where
  "utf8_bytes n = (if n < 0x80 then [char_of n]
     else if n < 0x800 then [char_of (0xC0 + n div 64), char_of (0x80 + n mod 64)]
     else [char_of (0xE0 + n div 4096), char_of (0x80 + n div 64 mod 64), char_of (0x80 + n mod 64)])"

definition simple_escape :: "char \<Rightarrow> char option" where
  "simple_escape c = (if c = CHR 0x22 \<or> c = CHR 0x5C \<or> c = CHR ''/'' then Some c
     else if c = CHR ''b'' then Some (CHR 0x08) else if c = CHR ''f'' then Some (CHR 0x0C)
     else if c = CHR ''n'' then Some (CHR 0x0A) else if c = CHR ''r'' then Some (CHR 0x0D)
     else if c = CHR ''t'' then Some (CHR 0x09) else None)"

text \<open>The rest of a string literal, after its opening quote: its value and what follows the closing quote.\<close>

fun read_string :: "string \<Rightarrow> (string \<times> string) option" where
  "read_string [] = None"
| "read_string (c # s) =
     (if c = CHR 0x22 then Some ([], s)
      else if c = CHR 0x5C then
        (case s of
           [] \<Rightarrow> None
         | e # s1 \<Rightarrow>
             if e = CHR ''u'' then
               (case s1 of
                  p # q # x # y # s2 \<Rightarrow>
                    (case (hex_val p, hex_val q, hex_val x, hex_val y) of
                       (Some h1, Some h2, Some h3, Some h4) \<Rightarrow>
                         map_option (\<lambda>(v, r). (utf8_bytes (h1 * 4096 + h2 * 256 + h3 * 16 + h4) @ v, r)) (read_string s2)
                     | _ \<Rightarrow> None)
                | _ \<Rightarrow> None)
             else (case simple_escape e of None \<Rightarrow> None | Some d \<Rightarrow> map_option (\<lambda>(v, r). (d # v, r)) (read_string s1)))
      else if byte c < 0x20 then None
      else map_option (\<lambda>(v, r). (c # v, r)) (read_string s))"

section \<open>Reading back\<close>

function valid_utf8 :: "string \<Rightarrow> bool" where
  "valid_utf8 [] = True"
| "valid_utf8 (a # s) =
     (if byte a < 0x80 then valid_utf8 s
      else if rune_len (a # s) = 0 then False
      else valid_utf8 (drop (rune_len (a # s)) (a # s)))"
  by pat_completeness auto
termination by (relation "measure length") auto

lemma hex_val_digit: "d < 16 \<Longrightarrow> hex_val (hex_digit d) = Some d"
  by (auto simp: hex_val_def of_char_hex_digit Let_def)

lemma hex_digits_of:
  assumes "(n::nat) < 65536"
  shows "n div 4096 mod 16 * 4096 + n div 256 mod 16 * 256 + n div 16 mod 16 * 16 + n mod 16 = n"
proof -
  have "n div 4096 mod 16 = n div 4096" using assms by simp
  moreover have "n = n div 16 * 16 + n mod 16" by simp
  moreover have "n div 16 = n div 256 * 16 + n div 16 mod 16" using div_mult2_eq [of n 16 16] by simp
  moreover have "n div 256 = n div 4096 * 16 + n div 256 mod 16" using div_mult2_eq [of n 256 16] by simp
  ultimately show ?thesis by linarith
qed

lemma read_escape_u:
  "n < 65536 \<Longrightarrow> read_string (escape_u n @ r) = map_option (\<lambda>(v, q). (utf8_bytes n @ v, q)) (read_string r)"
  using hex_digits_of [of n] by (simp add: escape_u_def hex4_def hex_val_digit)

lemma utf8_bytes_ascii: "byte c < 0x80 \<Longrightarrow> utf8_bytes (byte c) = [c]"
  by (simp add: utf8_bytes_def)

lemma read_escape_byte:
  assumes "byte c < 0x80"
  shows "read_string (escape_byte c @ r) = map_option (\<lambda>(v, q). (c # v, q)) (read_string r)"
  using assms read_escape_u [of "byte c" r]
  by (auto simp: escape_byte_def simple_escape_def utf8_bytes_ascii)

lemma read_literal:
  "\<forall>c \<in> set p. 0x80 \<le> byte c \<Longrightarrow> read_string (p @ r) = map_option (\<lambda>(v, q). (p @ v, q)) (read_string r)"
proof (induction p)
  case (Cons c p)
  then have "c \<noteq> CHR 0x22" "c \<noteq> CHR 0x5C" "\<not> byte c < 0x20" by auto
  with Cons show ?case by (simp add: option.map_comp comp_def case_prod_unfold)
qed (simp add: case_prod_unfold option.map_ident)

lemma rune_bytes: "rune_len s \<noteq> 0 \<Longrightarrow> \<forall>c \<in> set (take (rune_len s) s). 0x80 \<le> byte c"
  by (cases s rule: rune_len.cases) (auto simp: cont_def split: list.split_asm if_split_asm)

lemma read_quoted: "valid_utf8 s \<Longrightarrow> read_string (quoted s @ CHR 0x22 # rest) = Some (s, rest)"
proof (induction s rule: quoted.induct)
  case (2 a s)
  show ?case
  proof (cases "byte a < 0x80")
    case True
    with 2 show ?thesis by (simp add: read_escape_byte)
  next
    case False
    let ?n = "rune_len (a # s)" and ?r = "take (rune_len (a # s)) (a # s)"
    have n: "?n \<noteq> 0" "valid_utf8 (drop ?n (a # s))" using "2.prems" False by (auto split: if_splits)
    have rest: "read_string (quoted (drop ?n (a # s)) @ CHR 0x22 # rest) = Some (drop ?n (a # s), rest)"
      using "2.IH"(3) [OF False refl refl n(1)] "2.IH"(4) [OF False refl refl n(1)] "2.IH"(5) [OF False refl refl n(1)] n(2)
      by blast
    have "read_string (?r @ quoted (drop ?n (a # s)) @ CHR 0x22 # rest) = Some (?r @ drop ?n (a # s), rest)"
      using read_literal [OF rune_bytes [OF n(1)]] rest by simp
    moreover have "utf8_bytes 0x2028 = [CHR 0xE2, CHR 0x80, CHR 0xA8]" "utf8_bytes 0x2029 = [CHR 0xE2, CHR 0x80, CHR 0xA9]"
      by (simp_all add: utf8_bytes_def char_of_def bit_0)
    ultimately show ?thesis
      using False n(1) rest read_escape_u [of "0x2028"] read_escape_u [of "0x2029"] append_take_drop_id [of ?n "a # s"]
      by (auto simp: Let_def simp del: rune_len.simps read_string.simps append_take_drop_id take_eq_Nil)
  qed
qed simp

text \<open>Values and members, for the reader \<open>num\<close> of numbers (\<open>strconv.ParseFloat\<close>).\<close>

definition number_char :: "char \<Rightarrow> bool" where
  "number_char c \<longleftrightarrow> c \<in> set ''0123456789+-.eE''"

definition read_scalar :: "(string \<Rightarrow> rat option) \<Rightarrow> string \<Rightarrow> (json_scalar \<times> string) option" where
  "read_scalar num s = (case s of
      [] \<Rightarrow> None
    | c # r \<Rightarrow>
        if c = CHR 0x22 then map_option (\<lambda>(v, q). (JString v, q)) (read_string r)
        else if take 4 s = ''true'' then Some (JBool True, drop 4 s)
        else if take 5 s = ''false'' then Some (JBool False, drop 5 s)
        else map_option (\<lambda>x. (JNumber (Fin x), dropWhile number_char s)) (num (takeWhile number_char s)))"

definition read_member :: "(string \<Rightarrow> rat option) \<Rightarrow> string \<Rightarrow> ((string \<times> json_scalar) \<times> string) option" where
  "read_member num s = (case s of
      c # r \<Rightarrow> if c \<noteq> CHR 0x22 then None else
        (case read_string r of
           Some (k, d # q) \<Rightarrow> if d \<noteq> CHR '':'' then None else map_option (\<lambda>(v, u). ((k, v), u)) (read_scalar num q)
         | _ \<Rightarrow> None)
    | [] \<Rightarrow> None)"

text \<open>Members separated by commas, up to the closing brace at the end of the text; the bound is on their number.\<close>

fun read_members :: "(string \<Rightarrow> rat option) \<Rightarrow> nat \<Rightarrow> string \<Rightarrow> json_object option" where
  "read_members num 0 s = None"
| "read_members num (Suc n) s = (case read_member num s of
      Some (m, c # r) \<Rightarrow>
        if c = CHR '','' then map_option (\<lambda>ms. m # ms) (read_members num n r)
        else if c = CHR ''}'' \<and> r = [] then Some [m] else None
    | _ \<Rightarrow> None)"

definition read_object :: "(string \<Rightarrow> rat option) \<Rightarrow> string \<Rightarrow> json_object option" where
  "read_object num s = (if s = ''{}'' then Some []
     else case s of c # r \<Rightarrow> if c = CHR ''{'' then read_members num (length r) r else None | [] \<Rightarrow> None)"

text \<open>The strings of an object are valid UTF-8, and \<open>num\<close> reads back the digits \<open>fmt\<close> prints for its numbers.\<close>

fun scalar_readable :: "(rat \<Rightarrow> string) \<Rightarrow> (string \<Rightarrow> rat option) \<Rightarrow> json_scalar \<Rightarrow> bool" where
  "scalar_readable fmt num (JString s) \<longleftrightarrow> valid_utf8 s"
| "scalar_readable fmt num (JNumber (Fin x)) \<longleftrightarrow> fmt x \<noteq> [] \<and> list_all number_char (fmt x) \<and> num (fmt x) = Some x"
| "scalar_readable fmt num (JNumber _) \<longleftrightarrow> False"
| "scalar_readable fmt num (JBool b) \<longleftrightarrow> True"

definition readable :: "(rat \<Rightarrow> string) \<Rightarrow> (string \<Rightarrow> rat option) \<Rightarrow> json_object \<Rightarrow> bool" where
  "readable fmt num obj \<longleftrightarrow> (\<forall>(k, v) \<in> set obj. valid_utf8 k \<and> scalar_readable fmt num v)"

lemma read_scalar_text:
  assumes "scalar_readable fmt num v" "\<not> number_char c"
  shows "read_scalar num (scalar_text fmt v @ c # r) = Some (v, c # r)"
proof (cases v)
  case (JString s)
  with assms show ?thesis by (simp add: read_scalar_def json_string_def read_quoted del: read_string.simps)
next
  case (JNumber x)
  then obtain y where x: "x = Fin y" using assms(1) by (cases x) auto
  obtain d ds where d: "fmt y = d # ds" using assms(1) JNumber x by (cases "fmt y") auto
  have nc: "\<forall>e \<in> set (d # ds). number_char e" using assms(1) JNumber x d by (simp add: list_all_iff)
  then have "d \<noteq> CHR 0x22" "d \<noteq> CHR ''t''" "d \<noteq> CHR ''f''" by (auto simp: number_char_def)
  moreover have "takeWhile number_char (fmt y @ c # r) = fmt y" "dropWhile number_char (fmt y @ c # r) = c # r"
    using nc assms(2) by (simp_all add: d takeWhile_append dropWhile_append)
  ultimately show ?thesis
    using assms(1) JNumber x by (simp add: read_scalar_def d)
next
  case (JBool b)
  then show ?thesis by (simp add: read_scalar_def)
qed

lemma read_member_text:
  assumes "valid_utf8 k" "scalar_readable fmt num v" "\<not> number_char c"
  shows "read_member num (member_text fmt (k, v) @ c # r) = Some ((k, v), c # r)"
  using assms
  by (simp add: read_member_def member_text_def json_string_def read_quoted read_scalar_text del: read_string.simps)

lemma read_members_text:
  "readable fmt num obj \<Longrightarrow> obj \<noteq> [] \<Longrightarrow> length obj \<le> n \<Longrightarrow>
     read_members num n (Join (map (member_text fmt) obj) '','' @ ''}'') = Some obj"
proof (induction obj arbitrary: n)
  case (Cons m ms)
  obtain k v where m: "m = (k, v)" by (cases m)
  obtain n' where n: "n = Suc n'" using Cons.prems by (cases n) auto
  have ok: "valid_utf8 k" "scalar_readable fmt num v" using Cons.prems(1) m by (simp_all add: readable_def)
  have sep: "\<not> number_char (CHR '','')" "\<not> number_char (CHR ''}'')" by (simp_all add: number_char_def)
  note member = read_member_text [OF ok sep(1)] read_member_text [OF ok sep(2)]
  show ?case
  proof (cases "ms = []")
    case True
    then show ?thesis by (simp add: m n member)
  next
    case False
    then have "Join (map (member_text fmt) (m # ms)) '','' = member_text fmt (k, v) @ CHR '','' # Join (map (member_text fmt) ms) '',''"
      by (simp add: m Join_Cons)
    moreover have "read_members num n' (Join (map (member_text fmt) ms) '','' @ ''}'') = Some ms"
      using Cons False n by (intro Cons.IH) (auto simp: readable_def)
    ultimately show ?thesis by (simp add: m n member)
  qed
qed simp

lemma length_Join_members: "length obj \<le> length (Join (map (member_text fmt) obj) sep)"
proof (induction obj)
  case (Cons m ms)
  have "1 \<le> length (member_text fmt m)" by (simp add: member_text_def json_string_def)
  with Cons show ?case by (cases ms) (auto simp: Join_Cons)
qed simp

lemma read_object_text:
  assumes "readable fmt num obj"
  shows "read_object num (object_text fmt obj) = Some obj"
proof (cases "obj = []")
  case False
  then have "object_text fmt obj \<noteq> ''{}''"
    using length_Join_members [of obj fmt "'',''"] by (cases obj) (auto simp: object_text_def)
  moreover have "read_members num (length (Join (map (member_text fmt) obj) '','' @ ''}'')) (Join (map (member_text fmt) obj) '','' @ ''}'') = Some obj"
    using length_Join_members [of obj fmt "'',''"] by (intro read_members_text [OF assms False]) simp
  ultimately show ?thesis by (simp add: read_object_def object_text_def)
qed (simp add: read_object_def object_text_def)

section \<open>Properties\<close>

lemma props_text_eq:
  assumes "\<forall>(k, v) \<in> set ps. valid_value v"
  shows "props_text fmt ps = object_text fmt (propsJSON ps)"
  using flatten_props_marshalable [OF assms]
  by (simp add: props_text_def propsJSON_def json_Marshal_def object_text_def)

fun value_readable :: "(rat \<Rightarrow> string) \<Rightarrow> (string \<Rightarrow> rat option) \<Rightarrow> Value \<Rightarrow> bool" where
  "value_readable fmt num (Some (StringValue s)) \<longleftrightarrow> valid_utf8 s"
| "value_readable fmt num (Some (NumberValue (Fin x))) \<longleftrightarrow>
     fmt x \<noteq> [] \<and> list_all number_char (fmt x) \<and> num (fmt x) = Some x"
| "value_readable fmt num _ \<longleftrightarrow> True"

lemma flatten_props_readable:
  assumes "\<forall>(k, v) \<in> set ps. valid_value v \<and> valid_utf8 k \<and> value_readable fmt num v"
  shows "readable fmt num (flatten_props ps)"
  using assms
proof (induction ps)
  case (Cons p ps)
  obtain k v where p: "p = (k, v)" by (cases p)
  have "\<forall>x. scalar_of v = Some x \<longrightarrow> scalar_readable fmt num x"
    using Cons.prems p by (cases "(fmt, num, v)" rule: value_readable.cases) auto
  with Cons p show ?case by (auto simp: readable_def split: option.splits)
qed (simp add: readable_def)

text \<open>
  C27. Nothing a validated event says in its properties is lost or changed in storage: the text in the \<open>props\<close> column is a
  JSON object, whatever quotes, control bytes, markup, line separators or non-ASCII characters the
  properties hold (their strings are valid UTF-8, the decoder of the request accepts no others), and reading it back gives
  an object in which every key has exactly the value the event gave it, in byte order of the keys. The
  text does not depend on the order \<open>ps\<close> in which Go visits the map, so a redelivery stores the same bytes.
\<close>

theorem props_text_roundtrip:
  assumes "validate_Event u e = None" "distinct (map fst (e_Props e))"
    and "\<forall>(k, v) \<in> set (e_Props e). valid_utf8 k \<and> value_readable fmt num v" "mset ps = mset (e_Props e)"
  shows "\<exists>obj. read_object num (props_text fmt (e_Props e)) = Some obj \<and> sorted (map fst obj) \<and>
    (\<forall>k. map_of obj k = Option.bind (map_of (e_Props e) k) scalar_of) \<and> props_text fmt ps = props_text fmt (e_Props e)"
proof -
  have st: "\<forall>(k, v) \<in> set (e_Props e). valid_value v"
    using assms(1) by (auto simp: validate_None_iff valid_event_def)
  then have "\<forall>(k, v) \<in> set ps. valid_value v" using assms(4) by (metis mset_eq_setD)
  then have order: "props_text fmt ps = props_text fmt (e_Props e)"
    using propsJSON_order [OF st assms(2,4)] st by (simp add: props_text_eq)
  have "readable fmt num (flatten_props (e_Props e))"
    by (rule flatten_props_readable) (use assms(3) st in auto)
  then have "readable fmt num (propsJSON (e_Props e))" by (simp add: propsJSON_valid [OF st] readable_def)
  from read_object_text [OF this] have "read_object num (props_text fmt (e_Props e)) = Some (propsJSON (e_Props e))"
    by (simp add: props_text_eq [OF st])
  with order propsJSON_complete [OF assms(1,2) refl] show ?thesis by blast
qed

lemma error_body_read:
  assumes "valid_utf8 msg"
  shows "body_text (ErrorBody msg) = object_text fmt [(''error'', JString msg)] @ [CHR 0x0A]"
    and "read_object num (object_text fmt [(''error'', JString msg)]) = Some [(''error'', JString msg)]"
proof -
  show "body_text (ErrorBody msg) = object_text fmt [(''error'', JString msg)] @ [CHR 0x0A]"
    by (simp add: object_text_def member_text_def)
  show "read_object num (object_text fmt [(''error'', JString msg)]) = Some [(''error'', JString msg)]"
    by (rule read_object_text) (simp add: readable_def assms)
qed

definition odd_event :: Event where
  "odd_event = sample_event\<lparr>e_Props := [(''say'', Some (StringValue [CHR 0x22, CHR ''<'', CHR 0x0A, CHR 0xE2, CHR 0x80, CHR 0xA8])),
     (''n'', Some (NumberValue (Fin 3)))]\<rparr>"

theorem props_text_roundtrip_witness:
  "\<exists>obj. read_object (\<lambda>s. if s = ''3'' then Some 3 else None) (props_text (\<lambda>_. ''3'') (e_Props odd_event)) = Some obj \<and>
     map_of obj ''say'' = Some (JString [CHR 0x22, CHR ''<'', CHR 0x0A, CHR 0xE2, CHR 0x80, CHR 0xA8]) \<and> map_of obj ''other'' = None"
proof -
  have "\<exists>obj. read_object (\<lambda>s. if s = ''3'' then Some 3 else None) (props_text (\<lambda>_. ''3'') (e_Props odd_event)) = Some obj \<and>
      sorted (map fst obj) \<and> (\<forall>k. map_of obj k = Option.bind (map_of (e_Props odd_event) k) scalar_of) \<and>
      props_text (\<lambda>_. ''3'') (rev (e_Props odd_event)) = props_text (\<lambda>_. ''3'') (e_Props odd_event)"
    by (rule props_text_roundtrip [of Some])
      (simp_all add: validate_None_iff valid_event_def sample_event_def odd_event_def number_char_def cont_def)
  then show ?thesis by (auto simp: odd_event_def sample_event_def)
qed

end
