(* ===== verification/Boundaries.thy ===== *)
theory Boundaries
  imports Go_Text
begin

text \<open>
  \<open>tools/checkboundaries\<close>: the check of the monorepo's module rules. The \<open>go\<close> command is a parameter (what it
  prints, or the error it ends with and what it wrote to standard error), and so is one \<open>Decode\<close> of the JSON stream it prints; the loop around \<open>Decode\<close>
  is a \<open>partial_function\<close>, so that it ends is something to prove. The specification of a path inside a
  service is stated on the path's parts.
\<close>

definition modulePrefix :: string where
  "modulePrefix = ''github.com/dhiazfathra/event-tracking/''"

record pkgInfo =
  pi_ImportPath :: string
  pi_Imports :: "string list"
  pi_TestImports :: "string list"
  pi_XTestImports :: "string list"

definition mergedImports :: "pkgInfo \<Rightarrow> string list" where
  "mergedImports p = pi_Imports p @ pi_TestImports p @ pi_XTestImports p"

definition serviceOf :: "string \<Rightarrow> string" where
  "serviceOf path = (case CutPrefix path (modulePrefix @ ''services/'') of
      None \<Rightarrow> []
    | Some rest \<Rightarrow> takeWhile (\<lambda>c. c \<noteq> CHR ''/'') rest)"

definition isPkg :: "string \<Rightarrow> bool" where
  "isPkg path \<longleftrightarrow> HasPrefix path (modulePrefix @ ''pkg/'')"

definition import_violations :: "string \<Rightarrow> string \<Rightarrow> string list" where
  "import_violations pkg imp =
     (if serviceOf pkg \<noteq> [] \<and> serviceOf imp \<noteq> [] \<and> serviceOf imp \<noteq> serviceOf pkg
      then [pkg @ '' imports '' @ imp @ '' (services/* may not import each other)''] else [])
   @ (if isPkg pkg \<and> serviceOf imp \<noteq> []
      then [pkg @ '' imports '' @ imp @ '' (pkg/* may not import services/*)''] else [])"

fun violations :: "string \<Rightarrow> string list \<Rightarrow> string list" where
  "violations pkg [] = []"
| "violations pkg (imp # imports) = import_violations pkg imp @ violations pkg imports"

section \<open>Listing the packages\<close>

record go_tool =
  gt_modules :: "(string \<times> string) + string"
  gt_list :: "string \<Rightarrow> (string \<times> string) + string"

text \<open>One call of \<open>Decoder.Decode\<close> on the rest of the input: an object and what follows it, the end, or an error.\<close>

datatype decode_step = Decoded pkgInfo string | DecodeEOF | DecodeError string

datatype list_error = GoListModules string string | GoListPackages string string string | DecodeFailed string

fun list_error_text :: "list_error \<Rightarrow> string" where
  "list_error_text (GoListModules err stderr) = ''go list -m: '' @ err @ '': '' @ stderr"
| "list_error_text (GoListPackages dir err stderr) = ''go list ./... in '' @ dir @ '': '' @ err @ '': '' @ stderr"
| "list_error_text (DecodeFailed err) = err"

partial_function (option) decode_stream ::
  "(string \<Rightarrow> decode_step) \<Rightarrow> string \<Rightarrow> pkgInfo list \<Rightarrow> (list_error + pkgInfo list) option" where
  "decode_stream dec inp pkgs = (case dec inp of
      DecodeEOF \<Rightarrow> Some (Inr pkgs)
    | DecodeError err \<Rightarrow> Some (Inl (DecodeFailed err))
    | Decoded p rest \<Rightarrow> decode_stream dec rest (pkgs @ [p]))"

fun list_dirs :: "go_tool \<Rightarrow> (string \<Rightarrow> decode_step) \<Rightarrow> string list \<Rightarrow> pkgInfo list \<Rightarrow> (list_error + pkgInfo list) option" where
  "list_dirs G dec [] pkgs = Some (Inr pkgs)"
| "list_dirs G dec (dir # dirs) pkgs = (case gt_list G dir of
      Inl (err, stderr) \<Rightarrow> Some (Inl (GoListPackages dir err stderr))
    | Inr out \<Rightarrow> (case decode_stream dec out pkgs of
        None \<Rightarrow> None
      | Some (Inl err) \<Rightarrow> Some (Inl err)
      | Some (Inr pkgs') \<Rightarrow> list_dirs G dec dirs pkgs'))"

definition listPackages :: "go_tool \<Rightarrow> (string \<Rightarrow> decode_step) \<Rightarrow> (list_error + pkgInfo list) option" where
  "listPackages G dec = (case gt_modules G of
      Inl (err, stderr) \<Rightarrow> Some (Inl (GoListModules err stderr))
    | Inr out \<Rightarrow> list_dirs G dec (Fields out) [])"

text \<open>\<open>main\<close> after \<open>listPackages\<close>: the exit code, and the lines it prints on standard output and on standard error.\<close>

definition checkboundaries_main :: "list_error + pkgInfo list \<Rightarrow> nat \<times> string list \<times> string list" where
  "checkboundaries_main pkgs = (case pkgs of
      Inl err \<Rightarrow> (2, [], [''go list failed: '' @ list_error_text err])
    | Inr ps \<Rightarrow>
        (let all = concat (map (\<lambda>p. violations (pi_ImportPath p) (mergedImports p)) ps)
         in if all \<noteq> [] then (1, [], ''module boundary violations:'' # map (\<lambda>v. ''  '' @ v) all)
            else (0, [''module boundaries OK''], [])))"

section \<open>The rules\<close>

definition in_service :: "string \<Rightarrow> string \<Rightarrow> bool" where
  "in_service s path \<longleftrightarrow> s \<noteq> [] \<and> CHR ''/'' \<notin> set s \<and>
     (\<exists>rest. path = modulePrefix @ ''services/'' @ s @ rest \<and> (rest = [] \<or> hd rest = CHR ''/''))"

lemma takeWhile_split:
  "takeWhile (\<lambda>c. c \<noteq> a) xs = s \<longleftrightarrow> a \<notin> set s \<and> (\<exists>rest. xs = s @ rest \<and> (rest = [] \<or> hd rest = a))"
proof
  assume s: "takeWhile (\<lambda>c. c \<noteq> a) xs = s"
  have "dropWhile (\<lambda>c. c \<noteq> a) xs = [] \<or> hd (dropWhile (\<lambda>c. c \<noteq> a) xs) = a"
    using hd_dropWhile [of "\<lambda>c. c \<noteq> a" xs] by blast
  with s show "a \<notin> set s \<and> (\<exists>rest. xs = s @ rest \<and> (rest = [] \<or> hd rest = a))"
    by (metis set_takeWhileD takeWhile_dropWhile_id)
next
  assume "a \<notin> set s \<and> (\<exists>rest. xs = s @ rest \<and> (rest = [] \<or> hd rest = a))"
  then obtain rest where r: "a \<notin> set s" "xs = s @ rest" "rest = [] \<or> hd rest = a" by blast
  then have "takeWhile (\<lambda>c. c \<noteq> a) rest = []" by (cases rest) auto
  with r show "takeWhile (\<lambda>c. c \<noteq> a) xs = s" by (auto simp: takeWhile_append)
qed

lemma serviceOf_iff: "s \<noteq> [] \<Longrightarrow> serviceOf path = s \<longleftrightarrow> in_service s path"
  by (auto simp: serviceOf_def in_service_def CutPrefix_Some_iff CutPrefix_None_iff HasPrefix_iff takeWhile_split
      split: option.splits)

lemma violations_Nil: "violations pkg imps = [] \<longleftrightarrow> (\<forall>imp \<in> set imps. import_violations pkg imp = [])"
  by (induction imps) auto

definition breaks_rule :: "string \<Rightarrow> string \<Rightarrow> bool" where
  "breaks_rule pkg imp \<longleftrightarrow> (\<exists>s s'. in_service s pkg \<and> in_service s' imp \<and> s \<noteq> s') \<or>
     ((\<exists>rest. pkg = modulePrefix @ ''pkg/'' @ rest) \<and> (\<exists>s. in_service s imp))"

lemma import_violations_Nil: "import_violations pkg imp = [] \<longleftrightarrow> \<not> breaks_rule pkg imp"
proof -
  have ex: "serviceOf p \<noteq> [] \<longleftrightarrow> (\<exists>s. in_service s p)" for p
    by (metis in_service_def serviceOf_iff)
  have "(serviceOf pkg \<noteq> [] \<and> serviceOf imp \<noteq> [] \<and> serviceOf imp \<noteq> serviceOf pkg) \<longleftrightarrow>
      (\<exists>s s'. in_service s pkg \<and> in_service s' imp \<and> s \<noteq> s')"
    by (metis in_service_def serviceOf_iff)
  then show ?thesis
    by (auto simp: import_violations_def breaks_rule_def isPkg_def HasPrefix_iff ex)
qed

lemma exit_code:
  "fst (checkboundaries_main pkgs) = (case pkgs of
      Inl _ \<Rightarrow> 2
    | Inr ps \<Rightarrow> if \<exists>p \<in> set ps. \<exists>imp \<in> set (mergedImports p). breaks_rule (pi_ImportPath p) imp then 1 else 0)"
proof (cases pkgs)
  case (Inr ps)
  have "concat (map (\<lambda>p. violations (pi_ImportPath p) (mergedImports p)) ps) = [] \<longleftrightarrow>
      (\<forall>p \<in> set ps. \<forall>imp \<in> set (mergedImports p). \<not> breaks_rule (pi_ImportPath p) imp)"
    by (simp add: violations_Nil import_violations_Nil)
  with Inr show ?thesis by (simp add: checkboundaries_main_def Let_def)
qed (simp add: checkboundaries_main_def)

section \<open>The whole run\<close>

definition checkboundaries :: "go_tool \<Rightarrow> (string \<Rightarrow> decode_step) \<Rightarrow> (nat \<times> string list \<times> string list) option" where
  "checkboundaries G dec = map_option checkboundaries_main (listPackages G dec)"

text \<open>The objects of a stream, and what \<open>encoding/json\<close> documents: an object that was decoded has been consumed.\<close>

inductive stream :: "(string \<Rightarrow> decode_step) \<Rightarrow> string \<Rightarrow> pkgInfo list \<Rightarrow> bool" for dec where
  stream_end: "dec inp = DecodeEOF \<Longrightarrow> stream dec inp []"
| stream_obj: "dec inp = Decoded p rest \<Longrightarrow> stream dec rest ps \<Longrightarrow> stream dec inp (p # ps)"

inductive_simps stream_Nil_iff: "stream dec inp []"
inductive_simps stream_Cons_iff: "stream dec inp (p # ps)"

definition advances :: "(string \<Rightarrow> decode_step) \<Rightarrow> bool" where
  "advances dec \<longleftrightarrow> (\<forall>inp p rest. dec inp = Decoded p rest \<longrightarrow> length rest < length inp)"

lemma decode_stream_total:
  assumes "advances dec"
  shows "(\<exists>ps. decode_stream dec inp pkgs = Some (Inr (pkgs @ ps)) \<and> stream dec inp ps) \<or>
    (\<exists>err. decode_stream dec inp pkgs = Some (Inl (DecodeFailed err)) \<and> (\<nexists>ps. stream dec inp ps))"
proof (induction "length inp" arbitrary: inp pkgs rule: less_induct)
  case less
  show ?case
  proof (cases "dec inp")
    case (Decoded p rest)
    then have "length rest < length inp" using assms by (simp add: advances_def)
    from less.hyps [OF this, of "pkgs @ [p]"] Decoded show ?thesis
      by (auto simp: decode_stream.simps [of dec inp] intro: stream_obj elim: stream.cases)
  qed (auto simp: decode_stream.simps [of dec inp] intro: stream_end elim: stream.cases)
qed

definition listed :: "go_tool \<Rightarrow> (string \<Rightarrow> decode_step) \<Rightarrow> string \<Rightarrow> pkgInfo list \<Rightarrow> bool" where
  "listed G dec dir ps \<longleftrightarrow> (\<exists>out. gt_list G dir = Inr out \<and> stream dec out ps)"

lemma list_dirs_total:
  assumes "advances dec"
  shows "(\<exists>pss. list_dirs G dec dirs pkgs = Some (Inr (pkgs @ concat pss)) \<and> list_all2 (listed G dec) dirs pss) \<or>
    (\<exists>err. list_dirs G dec dirs pkgs = Some (Inl err) \<and> (\<exists>dir \<in> set dirs. \<nexists>ps. listed G dec dir ps))"
proof (induction dirs arbitrary: pkgs)
  case (Cons dir dirs)
  show ?case
  proof (cases "gt_list G dir")
    case (Inr out)
    consider ps where "decode_stream dec out pkgs = Some (Inr (pkgs @ ps))" "stream dec out ps"
      | err where "decode_stream dec out pkgs = Some (Inl (DecodeFailed err))" "\<nexists>ps. stream dec out ps"
      using decode_stream_total [OF assms, of out pkgs] by blast
    then show ?thesis
    proof cases
      case (1 ps)
      then have dir: "listed G dec dir ps" using Inr by (simp add: listed_def)
      from Cons.IH [of "pkgs @ ps"] show ?thesis
      proof (elim disjE exE conjE)
        fix pss
        assume "list_dirs G dec dirs (pkgs @ ps) = Some (Inr ((pkgs @ ps) @ concat pss))" "list_all2 (listed G dec) dirs pss"
        with 1 dir Inr show ?thesis by (intro disjI1 exI [of _ "ps # pss"]) simp
      qed (use 1 Inr in auto)
    qed (use Inr in \<open>auto simp: listed_def\<close>)
  qed (auto simp: listed_def split: prod.splits)
qed simp

lemma stream_unique: "stream dec inp ps \<Longrightarrow> stream dec inp ps' \<Longrightarrow> ps = ps'"
proof (induction arbitrary: ps' rule: stream.induct)
  case (stream_end inp)
  then show ?case by (cases ps') (auto simp: stream_Cons_iff)
next
  case (stream_obj inp p rest ps)
  obtain ps1 where "ps' = p # ps1" "stream dec rest ps1"
    using stream_obj.prems stream_obj.hyps(1) by (cases ps') (auto simp: stream_Nil_iff stream_Cons_iff)
  with stream_obj.IH [of ps1] show ?case by simp
qed

lemma listed_unique: "listed G dec dir ps \<Longrightarrow> listed G dec dir ps' \<Longrightarrow> ps = ps'"
  by (auto simp: listed_def intro: stream_unique)

lemma list_all2_each:
  assumes "\<And>x y y'. R x y \<Longrightarrow> R x y' \<Longrightarrow> y = y'" "list_all2 R xs ys"
  shows "(\<forall>x \<in> set xs. \<exists>y. R x y \<and> Q y) \<longleftrightarrow> (\<forall>y \<in> set ys. Q y)"
  using assms(2)
proof (induction rule: list_all2_induct)
  case (Cons x xs y ys)
  have "(\<exists>y'. R x y' \<and> Q y') \<longleftrightarrow> Q y" using assms(1) Cons.hyps(1) by metis
  with Cons.IH show ?case by simp
qed simp

text \<open>
  C38. The boundary checker always ends, and passes exactly when it has looked at everything and found nothing:
  for any output of the \<open>go\<close> command it returns an exit code, which is 0 if and only if every module
  directory of the workspace was listed, the whole of each listing was decoded, and no import, test
  imports included, of any package in any of them leads from one service into another or from \<open>pkg/\<close>
  into a service. A listing that fails or cannot be decoded gives 2, a forbidden import 1.
\<close>

theorem checkboundaries_ends_and_decides:
  assumes "advances dec"
  shows "\<exists>code msgs. checkboundaries G dec = Some (code, msgs) \<and> code \<in> {0, 1, 2} \<and>
    (code \<noteq> 2 \<longleftrightarrow> (\<exists>out. gt_modules G = Inr out \<and> (\<forall>dir \<in> set (Fields out). \<exists>ps. listed G dec dir ps))) \<and>
    (code = 0 \<longleftrightarrow> (\<exists>out. gt_modules G = Inr out \<and> (\<forall>dir \<in> set (Fields out). \<exists>ps. listed G dec dir ps \<and>
       (\<forall>p \<in> set ps. \<forall>imp \<in> set (pi_Imports p) \<union> set (pi_TestImports p) \<union> set (pi_XTestImports p).
          \<not> breaks_rule (pi_ImportPath p) imp))))"
proof (cases "gt_modules G")
  case (Inl e)
  then show ?thesis
    by (cases e) (simp add: checkboundaries_def listPackages_def checkboundaries_main_def)
next
  case (Inr out)
  have merged: "set (mergedImports p) = set (pi_Imports p) \<union> set (pi_TestImports p) \<union> set (pi_XTestImports p)" for p
    by (simp add: mergedImports_def Un_assoc)
  show ?thesis
    using list_dirs_total [OF assms, of G "Fields out" "[]"]
  proof (elim disjE exE conjE)
    fix pss
    assume run: "list_dirs G dec (Fields out) [] = Some (Inr ([] @ concat pss))"
      and all: "list_all2 (listed G dec) (Fields out) pss"
    obtain code msgs where main: "checkboundaries_main (Inr (concat pss)) = (code, msgs)" by (metis surj_pair)
    have code: "code = (if \<exists>ps \<in> set pss. \<exists>p \<in> set ps. \<exists>imp \<in> set (mergedImports p). breaks_rule (pi_ImportPath p) imp then 1 else 0)"
      using exit_code [of "Inr (concat pss)"] main by simp
    have each: "(\<forall>dir \<in> set (Fields out). \<exists>ps. listed G dec dir ps \<and> Q ps) \<longleftrightarrow> (\<forall>ps \<in> set pss. Q ps)" for Q
      using listed_unique all by (rule list_all2_each)
    show ?thesis
      using run main code each [of "\<lambda>_. True"]
        each [of "\<lambda>ps. \<forall>p \<in> set ps. \<forall>imp \<in> set (mergedImports p). \<not> breaks_rule (pi_ImportPath p) imp"] Inr
      by (auto simp: checkboundaries_def listPackages_def merged)
  next
    fix err
    assume "list_dirs G dec (Fields out) [] = Some (Inl err)" "\<exists>dir \<in> set (Fields out). \<nexists>ps. listed G dec dir ps"
    with Inr show ?thesis
      by (auto simp: checkboundaries_def listPackages_def checkboundaries_main_def)
  qed
qed

text \<open>A decoder for streams of one kind of object, written as the letter \<open>p\<close>.\<close>

definition letter_decoder :: "string \<Rightarrow> decode_step" where
  "letter_decoder inp = (case inp of
      [] \<Rightarrow> DecodeEOF
    | c # rest \<Rightarrow> if c = CHR ''p'' then Decoded \<lparr>pi_ImportPath = modulePrefix @ ''pkg/tenant'',
        pi_Imports = [modulePrefix @ ''services/ingest/internal/quota''], pi_TestImports = [], pi_XTestImports = []\<rparr> rest
      else DecodeError ''invalid character'')"

definition one_module :: go_tool where
  "one_module = \<lparr>gt_modules = Inr ''/repo'', gt_list = (\<lambda>_. Inr ''pp'')\<rparr>"

theorem checkboundaries_ends_and_decides_witness:
  "\<exists>code msgs. checkboundaries one_module letter_decoder = Some (code, msgs) \<and> code = 1"
proof -
  let ?p = "\<lparr>pi_ImportPath = modulePrefix @ ''pkg/tenant'', pi_Imports = [modulePrefix @ ''services/ingest/internal/quota''],
    pi_TestImports = [], pi_XTestImports = []\<rparr>"
  have adv: "advances letter_decoder"
    by (auto simp: advances_def letter_decoder_def split: list.splits if_splits)
  have "stream letter_decoder ''pp'' [?p, ?p]"
    by (simp add: stream_Cons_iff stream_Nil_iff letter_decoder_def)
  then have listed: "listed one_module letter_decoder dir [?p, ?p]" for dir
    by (simp add: listed_def one_module_def)
  have "in_service ''ingest'' (modulePrefix @ ''services/ingest/internal/quota'')"
    unfolding in_service_def by (intro conjI exI [of _ "''/internal/quota''"]) simp_all
  then have bad: "breaks_rule (pi_ImportPath ?p) (modulePrefix @ ''services/ingest/internal/quota'')"
    unfolding breaks_rule_def by (intro disjI2 conjI exI [of _ "''tenant''"] exI [of _ "''ingest''"]) simp_all
  have dirs: "Fields ''/repo'' = [''/repo'']"
    by (rule Fields_word) (simp_all add: plain_char_def ascii_space_def)
  have mods: "gt_modules one_module = Inr ''/repo''" by (simp add: one_module_def)
  have only: "listed one_module letter_decoder ''/repo'' ps \<longleftrightarrow> ps = [?p, ?p]" for ps
    using listed_unique [of one_module letter_decoder "''/repo''" ps "[?p, ?p]"] listed by blast
  from checkboundaries_ends_and_decides [OF adv, of one_module] bad show ?thesis
    by (auto simp: mods dirs only)
qed

end
