(* ===== verification/Testsupport.thy ===== *)
theory Testsupport
  imports Go_Text
begin

text \<open>
  \<open>pkg/testsupport/golden.go\<close>: where the shared fixtures are found. \<open>Dir\<close> and \<open>Join\<close> of \<open>path/filepath\<close> are
  written out for slash-separated paths (\<open>Clean\<close> is in \<open>Go_Text\<close>); the path of the source file (\<open>runtime.Caller\<close>) and the file
  system are arguments.
\<close>

section \<open>path/filepath\<close>

text \<open>\<open>Dir\<close> cleans the part up to the last slash, \<open>Join\<close> the elements from the first one that is not empty.\<close>

definition Dir :: "string \<Rightarrow> string" where
  "Dir path = Clean (rev (dropWhile (\<lambda>c. c \<noteq> CHR ''/'') (rev path)))"

definition filepath_Join :: "string list \<Rightarrow> string" where
  "filepath_Join elem = (case dropWhile (\<lambda>e. e = []) elem of [] \<Rightarrow> [] | es \<Rightarrow> Clean (Join es ''/''))"

section \<open>golden.go\<close>

definition GoldenPath :: "string \<Rightarrow> string \<Rightarrow> string" where
  "GoldenPath self name =
     (let repoRoot = Dir (Dir (Dir self)) in filepath_Join [repoRoot, ''testdata'', ''golden'', name])"

datatype golden_failure = LoadGoldenFailed string

definition LoadGolden :: "(string \<Rightarrow> string option) \<Rightarrow> string \<Rightarrow> string \<Rightarrow> golden_failure + string" where
  "LoadGolden ReadFile self name = (case ReadFile (GoldenPath self name) of
      None \<Rightarrow> Inl (LoadGoldenFailed name)
    | Some b \<Rightarrow> Inr b)"

section \<open>Fixtures are found from every module\<close>

definition plain_elem :: "string \<Rightarrow> bool" where
  "plain_elem e \<longleftrightarrow> e \<noteq> [] \<and> e \<noteq> ''.'' \<and> e \<noteq> ''..'' \<and> CHR ''/'' \<notin> set e"

definition abs_path :: "string list \<Rightarrow> string" where
  "abs_path es = concat (map (\<lambda>e. CHR ''/'' # e) es)"

lemma abs_path_simps [simp]: "abs_path [] = []" "abs_path (e # es) = CHR ''/'' # e @ abs_path es"
    "abs_path (es @ fs) = abs_path es @ abs_path fs"
  by (simp_all add: abs_path_def)

lemma Split_prefix: "c \<notin> set f \<Longrightarrow> Split c s = g # gs \<Longrightarrow> Split c (f @ s) = (f @ g) # gs"
  by (induction f) auto

lemma Split_abs_path: "list_all plain_elem es \<Longrightarrow> Split (CHR ''/'') s = [] # ss \<Longrightarrow> Split (CHR ''/'') (abs_path es @ s) = [] # es @ ss"
proof (induction es)
  case (Cons e es)
  then have "Split (CHR ''/'') (e @ abs_path es @ s) = (e @ []) # es @ ss"
    by (intro Split_prefix) (simp_all add: plain_elem_def)
  then show ?case by simp
qed simp

lemma fold_clean_step:
  "list_all (\<lambda>e. e = [] \<or> plain_elem e) es \<Longrightarrow> fold (clean_step r) es out = rev (filter (\<lambda>e. e \<noteq> []) es) @ out"
  by (induction es arbitrary: out) (auto simp: plain_elem_def)

lemma Join_abs_path: "es \<noteq> [] \<Longrightarrow> CHR ''/'' # Join es ''/'' = abs_path es"
  by (induction es rule: induct_list012) simp_all

definition dir_path :: "string list \<Rightarrow> string" where
  "dir_path es = (if es = [] then ''/'' else abs_path es)"

lemma Clean_rooted:
  assumes "HasPrefix s ''/''" "Split (CHR ''/'') s = [] # ss" "list_all (\<lambda>e. e = [] \<or> plain_elem e) ss"
  shows "Clean s = dir_path (filter (\<lambda>e. e \<noteq> []) ss)"
  using Join_abs_path [of "filter (\<lambda>e. e \<noteq> []) ss"] assms
  by (simp add: Clean_def fold_clean_step Let_def dir_path_def)

lemma plain_elems:
  assumes "list_all plain_elem es"
  shows "filter (\<lambda>e. e \<noteq> []) es = es" and "list_all (\<lambda>e. e = [] \<or> plain_elem e) es"
  using assms by (auto simp: list_all_iff plain_elem_def filter_id_conv)

lemma HasPrefix_abs_path: "es \<noteq> [] \<Longrightarrow> HasPrefix (abs_path es @ s) ''/''"
  by (cases es) (simp_all add: HasPrefix_def)

lemma Clean_abs_path:
  assumes "list_all plain_elem es" "list_all plain_elem fs" "fs \<noteq> []"
  shows "Clean (abs_path es @ ''/'') = dir_path es" and "Clean (dir_path es @ abs_path fs) = dir_path (es @ fs)"
proof -
  have "Clean (abs_path es @ ''/'') = dir_path (filter (\<lambda>e. e \<noteq> []) (es @ [[]]))"
    using Split_abs_path [OF assms(1), of "''/''" "[[]]"] plain_elems(2) [OF assms(1)] HasPrefix_abs_path [of es "''/''"]
    by (intro Clean_rooted) (cases "es = []"; simp add: HasPrefix_def)+
  then show "Clean (abs_path es @ ''/'') = dir_path es" using plain_elems(1) [OF assms(1)] by simp
  have fs: "Split (CHR ''/'') (abs_path fs) = [] # fs" using Split_abs_path [OF assms(2), of "[]" "[]"] by simp
  let ?ss = "if es = [] then [] # fs else es @ fs"
  have "Clean (dir_path es @ abs_path fs) = dir_path (filter (\<lambda>e. e \<noteq> []) ?ss)"
    using Split_abs_path [OF assms(1) fs] fs plain_elems(2) [OF assms(1)] plain_elems(2) [OF assms(2)]
      HasPrefix_abs_path [of es "abs_path fs"]
    by (intro Clean_rooted) (cases "es = []"; simp add: HasPrefix_def dir_path_def)+
  then show "Clean (dir_path es @ abs_path fs) = dir_path (es @ fs)"
    using plain_elems(1) [OF assms(1)] plain_elems(1) [OF assms(2)] by (cases "es = []") simp_all
qed

lemma Dir_abs_path:
  assumes "list_all plain_elem (es @ [e])"
  shows "Dir (abs_path (es @ [e])) = dir_path es"
proof -
  have "rev (dropWhile (\<lambda>c. c \<noteq> CHR ''/'') (rev (abs_path (es @ [e])))) = abs_path es @ ''/''"
    using assms by (subst abs_path_simps(3), simp add: plain_elem_def dropWhile_append)
  with Clean_abs_path(1) [of es "[e]"] assms show ?thesis by (simp add: Dir_def)
qed

text \<open>
  For a checkout at any absolute directory a fixture name resolves to the file of that name in
  \<open>testdata/golden\<close> of the checkout: three steps up from the source file is the root of the repository.
\<close>

lemma GoldenPath_in_repo:
  assumes "list_all plain_elem repo" "plain_elem name"
  shows "GoldenPath (abs_path (repo @ [''pkg'', ''testsupport'', ''golden.go''])) name = abs_path (repo @ [''testdata'', ''golden'', name])"
proof -
  have up: "Dir (abs_path (repo @ [''pkg'', ''testsupport'', ''golden.go''])) = abs_path (repo @ [''pkg'', ''testsupport''])"
      "Dir (abs_path (repo @ [''pkg'', ''testsupport''])) = abs_path (repo @ [''pkg''])" "Dir (abs_path (repo @ [''pkg''])) = dir_path repo"
    using Dir_abs_path [of "repo @ [''pkg'', ''testsupport'']" "''golden.go''"] Dir_abs_path [of "repo @ [''pkg'']" "''testsupport''"]
      Dir_abs_path [of repo "''pkg''"] assms(1) by (simp_all add: dir_path_def plain_elem_def)
  have "dir_path repo \<noteq> []" by (cases repo) (simp_all add: dir_path_def)
  then have "GoldenPath (abs_path (repo @ [''pkg'', ''testsupport'', ''golden.go''])) name =
      Clean (dir_path repo @ abs_path [''testdata'', ''golden'', name])"
    unfolding GoldenPath_def Let_def up by (simp add: filepath_Join_def)
  also have "\<dots> = dir_path (repo @ [''testdata'', ''golden'', name])"
    using assms by (intro Clean_abs_path(2)) (simp_all add: plain_elem_def)
  finally show ?thesis by (simp add: dir_path_def)
qed

lemma LoadGolden_reads:
  assumes "list_all plain_elem repo" "plain_elem name" "ReadFile (abs_path (repo @ [''testdata'', ''golden'', name])) = r"
  shows "LoadGolden ReadFile (abs_path (repo @ [''pkg'', ''testsupport'', ''golden.go''])) name =
    (case r of None \<Rightarrow> Inl (LoadGoldenFailed name) | Some b \<Rightarrow> Inr b)"
  unfolding LoadGolden_def GoldenPath_in_repo [OF assms(1,2)] assms(3) ..

end
