(* ===== verification/Spec2Isabelle.thy ===== *)
theory Spec2Isabelle
  imports Schema Batch_Limits Concurrent_Budget Concurrent_Store Concurrent_Exchange Json_Text Boundaries Testsupport
begin

text \<open>
  \<^bold>\<open>The ingest service of event-tracking, verified\<close>

  \<^bold>\<open>The program.\<close> Mobile SDKs exchange a public client id for a short-lived token (\<open>POST /v1/auth/token\<close>, with a
  nonce from \<open>POST /v1/auth/challenge\<close> for attestation) and send batches of events with it (\<open>POST /v1/batch\<close>).
  A batch request verifies the token against the published key set (\<open>GET /.well-known/jwks.json\<close>),
  validates each event on its own, charges the tenant's budget in Redis, corrects device clocks with an
  offset pinned per session in Postgres, inserts into ClickHouse and answers which events were accepted.
  The control plane (Postgres) holds tenants, client ids, quotas, installs, session offsets and signing keys.
  At startup the service migrates both databases and makes sure there is a signing key. A second program,
  \<open>tools/checkboundaries\<close>, checks the module rules of the repository.

  \<^bold>\<open>Theories and sources\<close> (paths under \<open>src/\<close>).
  \<^item> \<open>Go_Prelude\<close>, \<open>Go_Text\<close>, \<open>Go_Date\<close>, \<open>Go_Sha256\<close>: what the code uses of Go and its library. Machine integers
    are words, an instant is its nanoseconds since 1970 as an \<open>int\<close>, a duration an \<open>int\<close> with the saturation
    of \<open>Time.Sub\<close> written out, a string its bytes; SHA-256, hexadecimal, decimal, calendar dates,
    \<open>strings.Fields\<close>, \<open>TrimSpace\<close>, \<open>Split\<close> and \<open>Cut\<close> compute.
  \<^item> \<open>Pkg_Limits\<close>: \<open>pkg/limits/limits.go\<close>. \<open>Wire\<close>: the message shapes of \<open>gen/go/tracking/v1\<close>.
  \<^item> \<open>Tenant_Token\<close>, \<open>Tenant_Verify\<close>, \<open>Tenant_Profile\<close>, \<open>Tenant_Legacy\<close>: \<open>pkg/tenant\<close> (\<open>token.go\<close>, \<open>verify.go\<close>,
    \<open>legacy.go\<close>). The record \<open>Verifier\<close> is the key cache; \<open>Tenant_Profile\<close> states the verification profile of
    ADR-0007 row by row, what of it the code enforces, and the round trip of minting and verifying.
  \<^item> \<open>Validate\<close>, \<open>Enrich\<close>, \<open>Offset_Store\<close>: \<open>services/ingest/internal/validate\<close> and \<open>enrich\<close>. Both offset stores are
    instances of the locale \<open>offset_store\<close>, and the retention statement of the migrations sweeps the Postgres one.
    \<open>Json_Text\<close>: the text \<open>encoding/json\<close> writes for the properties of an event and for error bodies, and a reader.
  \<^item> \<open>Redis_Server\<close>, \<open>Quota_Checker\<close>, \<open>Attest\<close>, \<open>Redis_Traffic\<close>: the Redis commands the code uses with their laws as
    the locale \<open>redis_server\<close>, and on it \<open>services/ingest/internal/quota\<close> and \<open>attest\<close>; the locale
    \<open>challenge_store\<close> is the interface \<open>ChallengeStore\<close>. \<open>Redis_Traffic\<close> interleaves all of it.
  \<^item> \<open>Control_Plane\<close>, \<open>Pg_Migrate\<close>: \<open>pkg/controlplane\<close>. A table is the list of its rows, a query its meaning on
    them, and every statement can run, not run, or run with its reply lost (\<open>pg_outcome\<close>).
  \<^item> \<open>Clickhouse\<close>, \<open>Ch_Migrate\<close>, \<open>Connections\<close>: \<open>pkg/clickhouse\<close>, and the opening of both connection pools (locale
    \<open>pool_opener\<close>).
  \<^item> \<open>Http_Io\<close>, \<open>Batch_Handler\<close>, \<open>Token_Handler\<close>: \<open>services/ingest/internal/handler\<close>. A handler is one function of
    its wiring, the request, the clock and the state it can change, with every early return.
  \<^item> \<open>Service_Main\<close>, \<open>Service_Http\<close>: \<open>services/ingest/cmd/main.go\<close>, from startup to exit, and the routes with the
    handlers mounted on them. \<open>Schema\<close>: the constraints of the tables in \<open>pkg/controlplane/sql\<close>.
  \<^item> \<open>Fleet\<close>: many pods on shared stores, one whole request after another. \<open>Concurrent\<close>, \<open>Concurrent_Budget\<close>,
    \<open>Concurrent_Store\<close>: requests in flight, each a task that stops at every access to shared state, interleaved
    in any order (\<open>reachable\<close>); the locale \<open>shared_invariant\<close> lifts an invariant of one step to all of them.
    \<open>Concurrent_Exchange\<close>: the same for token exchanges (\<open>exchanges\<close>). \<open>Batch_Limits\<close>: what a refused batch is told.
  \<^item> \<open>Boundaries\<close>: \<open>tools/checkboundaries\<close>. \<open>Testsupport\<close>: \<open>pkg/testsupport\<close>, with \<open>path/filepath\<close> as it uses it.

  \<^bold>\<open>What is shown.\<close>
  \<^item> Durability and idempotence: a 200 means stored, exactly; redelivery collapses, also across retention
    sweeps; the pool that opens waits for the flush; migrations leave no partial state (Postgres) or an
    exactly described one (ClickHouse).
    Redelivery collapses exactly when both receipts have the corrected time in their window.
  \<^item> Concurrency: a task on its own is the handler; in every reachable state of a cluster no answer is ahead of
    storage, deliveries of one event share their sort key, and the daily budget of a tenant holds; of
    exchanges in flight none gets tier 0 without a challenge of its own, and install ids are stable and not shared.
  \<^item> Identity: acceptance of a token as an equivalence with the rows of ADR-0007; rows carry the verified tenant, install and tier;
    tier 0 is earned with a challenge that is spent once; install ids are stable and not shared; legacy keys
    need a live row; keys are fresh, well shaped and fetched at a bounded rate.
  \<^item> Budgets: one admission charges all or nothing; over any interleaved traffic the rate of an install (per lifetime
    of its counter), the day of a tenant, the ceiling of a client and, end to end, the rows stored per tenant and day are bounded.
  \<^item> Data: validation accepts exactly the events that meet its documented rules; times stay in their window and
    do not overflow; no property of an event is lost, and its stored text reads back; the control plane keeps
    every constraint of its schema, so its queries never have a choice to make.
  \<^item> Gaps, proved as well: two rows of the verification profile are not enforced (\<open>Verify_enforces_all_but_two_rows\<close>);
    slow uploads escape the rate limit (\<open>late_admissions_escape_rate\<close>); a clamped event is stored again on
    every retry (\<open>redelivery_collapses_iff\<close>); an id with a zero byte passes validation and holds up its batch
    (\<open>nul_id_poisons_batch\<close>), and a batch with more events than its install may send in one second, by default
    ten, is refused for ever (\<open>large_batch_never_admitted\<close>).
  \<^item> Availability: with the systems behind them up, a batch within its limits is stored and answered 200, and an
    exchange of a live client below its ceiling gets a token, whatever attestation it carries; the wait a
    429 names is long enough for the budget that refused the batch to be another one.
  \<^item> The whole: startup serves only when ready, and then the service accepts its own tokens; requests confine
    their effects; refusals leave no trace; the process closes what it opened; the boundary checker terminates and decides.

  \<^bold>\<open>Bounds.\<close> Lua computes with 53-bit floating point numbers (\<open>lua_num\<close>), so the exact statements about counters ask
  for values below \<open>2 ^ 53\<close>, and those about client ceilings for fewer than \<open>2 ^ 61\<close> calls in one window. The
  counter of a day lives 48 hours, so the daily bound holds for admissions within 12 hours, by the Redis server's clock,
  of their time of receipt; the one of a second lives 2 seconds, and its bound is per 2 seconds of the
  server's clock, with nothing asked of the time of receipt. There is no fuel: loops over lists are
  structural, and the one loop over a stream is a partial function that is proved to end. The 503 steps of
  \<open>solo_request_is_NewBatch\<close> are the key, the admission, one per event of at most 500, and the insert.

  \<^bold>\<open>Parameters.\<close> The JWT library (\<open>jwx\<close>, \<open>jwx_signer\<close>, \<open>jwk_lib\<close>), \<open>uuid.Parse\<close>, \<open>protojson\<close>, \<open>gzip\<close>, the JSON decoder of
  \<open>go list\<close>, the database drivers and servers, the attestor, random bytes, clocks and the outcome of each
  round trip are arguments. What a theorem needs of them is a named hypothesis (\<open>signs_for\<close>, \<open>waits_for_flush\<close>,
  \<open>honours_wait\<close>, \<open>stores_once\<close>, \<open>stores_all\<close>, \<open>signs_all\<close>, \<open>refuses_nul\<close>, \<open>imports_ed25519\<close>, \<open>advances\<close>, \<open>gzip_reads_to_end\<close>, the locale
  \<open>redis_server\<close>), and its witness instantiates it. The handlers carry the JSON objects of properties and
  error bodies as values, \<open>Json_Text\<close> gives their text (floats are formatted and parsed by the parameters \<open>fmt\<close>
  and \<open>num\<close>); the text of the key set is represented by the set.

  \<^bold>\<open>Not modelled.\<close> The reflection code of the generated messages and the messages of the query service, which
  has no code; logging; the \<open>Abort\<close> of a ClickHouse batch, which only gives its connection back; the goroutine and the TCP side of the HTTP server; cancelled request contexts other
  than as failed round trips. Of the SQL files, which are data of the migration runners, the constraints, the
  sort key and the retention statement are modelled, not the text; the table \<open>read_keys\<close> has no code.
\<close>

section \<open>From exchange to ingest\<close>

lemma fresh_verifier_key:
  assumes "jwk_Fetch X url now = Some s" "lookup X (Some s) kid = Some k" "kid \<noteq> []" "0 \<le> now"
  shows "\<exists>v'. key X kid now (NewVerifier url iss aud) = (Inr k, v')"
proof -
  have "jwksMinRefetch \<le> time_Sub now zero_time"
    unfolding gap_iff using assms(4) by (simp add: jwks_consts zero_time_def)
  with assms(1-3) show ?thesis
    by (simp add: key_def key_refresh_def key_stale_def refetchLocked_def Let_def NewVerifier_def key_find_def)
qed

text \<open>The control plane names its tenants and installs.\<close>

definition named_rows :: "control_db \<Rightarrow> bool" where
  "named_rows db \<longleftrightarrow> (\<forall>c \<in> set (db_client_ids db). cl_tenant_id c \<noteq> []) \<and> (\<forall>i \<in> set (db_installs db). in_install_id i \<noteq> [])"

text \<open>The stored halves of every signing key belong together, for the libraries that sign and verify.\<close>

definition key_pairs_match :: "jwx_signer \<Rightarrow> jwx \<Rightarrow> control_db \<Rightarrow> bool" where
  "key_pairs_match J X db \<longleftrightarrow> (\<forall>row \<in> set (db_signing_keys db). \<forall>k pk.
     jx_Import J (sg_private_key row) = Some k \<and> jk_public pk = sg_public_key row \<longrightarrow> signs_for J X k pk)"

lemma IssueInstall_named:
  assumes "IssueInstall rand pg tid platform subject dk tier db = (Inr i, db')" "named_rows db"
  shows "i \<noteq> [] \<and> install_of db' (tid, anchor_of subject dk) = Some i"
proof -
  have "i \<noteq> []"
    using assms find_install_in
    by (fastforce simp: IssueInstall_def upsert_install_def named_rows_def Let_def
        split: option.splits if_splits pg_outcome.splits)
  moreover have "install_of db' (tid, anchor_of subject dk) = Some i"
    using installs.answers [of "(rand, pg, tid, platform, subject, dk, tier)" db i db'] assms(1)
    by (simp add: issue_install_def call_key_def)
  ultimately show ?thesis by simp
qed

lemma served_key:
  assumes "startup E st = (Inr cfg, st')" "signing_wf (sv_db st)" "m_kid (cf_minter cfg) \<noteq> []"
    "PublicJWKS JL Executed (sv_db st') = Inr s" "imports_ed25519 JL" "LookupKeyID X = first_kid"
    "jwk_Fetch X (v_url (cf_verifier cfg)) later = Some s" "key_pairs_match (se_signer E) X (sv_db st')" "0 \<le> later"
  obtains pk v' where "key X (m_kid (cf_minter cfg)) later (cf_verifier cfg) = (Inr pk, v')"
    "signs_for (se_signer E) X (m_key (cf_minter cfg)) pk" "v_issuer (cf_verifier cfg) = m_issuer (cf_minter cfg)"
    "v_audience (cf_verifier cfg) = m_audience (cf_minter cfg)" "m_ttl (cf_minter cfg) = 45 * Minute"
  using assms(1)
proof (rule startup_Inr)
  fix conn pool sk
  assume k: "EnsureSigningKey (se_keygen E) (se_snapshot E) (se_pg_insert E) (se_pg_select E)
       (env (se_Getenv E) ''SIGNING_KID'' ''kid-1'') (sv_db st) = (None, sv_db st')"
    and sk: "ActiveSigningKey Executed (sv_db st') = Inr sk" "configure E conn pool sk = Inr cfg"
  note cfg = configure_Inr [OF sk(2)]
  have "signing_wf (sv_db st')" using EnsureSigningKey_ok [OF assms(2) k] by blast
  from active_key_in_jwks [OF this assms(5) sk(1) assms(4)] obtain pk row where
    row: "row \<in> set (db_signing_keys (sv_db st'))" "sg_private_key row = sy_Private sk" "jk_public pk = sg_public_key row"
    and pk: "first_kid s (sy_KID sk) = Some pk" "jk_KeyUsage pk = Some ''sig''" "jk_KeyType pk = ''OKP''"
      "jk_crv pk = Some ''Ed25519''" by blast
  have "lookup X (Some s) (m_kid (cf_minter cfg)) = Some pk" using pk cfg assms(6) by (simp add: lookup_Some)
  moreover obtain url where url: "cf_verifier cfg = NewVerifier url (m_issuer (cf_minter cfg)) (m_audience (cf_minter cfg))"
    using cfg by blast
  moreover from url have url_eq: "v_url (cf_verifier cfg) = url" by (simp add: NewVerifier_def)
  ultimately obtain v' where "key X (m_kid (cf_minter cfg)) later (cf_verifier cfg) = (Inr pk, v')"
    using fresh_verifier_key [of X url later s "m_kid (cf_minter cfg)" pk "m_issuer (cf_minter cfg)" "m_audience (cf_minter cfg)"]
      assms(3,7,9) url_eq url by auto
  moreover have "signs_for (se_signer E) X (m_key (cf_minter cfg)) pk"
    using assms(8) row cfg unfolding key_pairs_match_def by metis
  ultimately show thesis using that cfg url by (simp add: NewVerifier_def)
qed

lemma served_exchange:
  assumes "NewToken (tokenDeps J m R e db) rq now \<lparr>tw_redis = r, tw_db = db\<rparr> = (rs, w')" "rs_Code rs = 200" "named_rows db"
  obtains body req c i tok n out where "readBody (xe_gzip e) rq = Inr body" "xe_Unmarshal e body = Some req"
    "rs_Body rs = RawBody out"
    "xe_Marshal e \<lparr>tr_AccessToken = tok, tr_ExpiresIn = n, tr_TrustTier = 1\<rparr> = Some out"
    "c \<in> set (db_client_ids db)" "cl_client_id c = t_ClientId req" "cl_revoked_at c = None" "cl_tenant_id c \<noteq> []"
    "install_of (tw_db w') (cl_tenant_id c, Device (deviceKey req)) = Some i" "i \<noteq> []"
    "Mint J m \<lparr>c_TenantID = cl_tenant_id c, c_InstallID = i, c_Scope = ScopeWriteEvents, c_TrustTier = 1\<rparr> now = Inr (tok, n)"
  using assms(1,2)
proof (rule NewToken_200)
  let ?D = "tokenDeps J m R e db"
  fix body and req :: TokenRequest and tid r1 subject tier i tok n out
  assume body: "readBody (td_gzip ?D) rq = Inr body" "td_Unmarshal ?D body = Some req"
    and tid: "td_ResolveTenant ?D (t_ClientId req) = Some tid"
    and ti: "assign_tier ?D req r1 = ((subject, tier), tw_redis w')"
    and iss: "td_IssueInstall ?D tid (t_Platform req) subject (deviceKey req) tier (tw_db \<lparr>tw_redis = r, tw_db = db\<rparr>) = (Inr i, tw_db w')"
    and mint: "Mint (td_Signer ?D) (td_Minter ?D) \<lparr>c_TenantID = tid, c_InstallID = i, c_Scope = ScopeWriteEvents,
         c_TrustTier = tier\<rparr> now = Inr (tok, n)"
      "td_Marshal ?D \<lparr>tr_AccessToken = tok, tr_ExpiresIn = n, tr_TrustTier = ucast tier\<rparr> = Some out" "rs_Body rs = RawBody out"
  have tier: "tier = 1" "subject = []"
    using assign_tier_cases(2,3) [OF ti] by (simp_all add: tokenDeps_def Noop_Verify_def)
  obtain c where c: "c \<in> set (db_client_ids db)" "cl_client_id c = t_ClientId req" "cl_revoked_at c = None" "cl_tenant_id c = tid"
    using tid ResolveTenant_Inr [of "xe_pg_resolve e" db "t_ClientId req"] by (auto simp: tokenDeps_def split: sum.splits)
  have "i \<noteq> [] \<and> install_of (tw_db w') (tid, Device (deviceKey req)) = Some i"
    using IssueInstall_named [OF _ assms(3)] iss by (fastforce simp: tokenDeps_def tier anchor_of_def)
  with that [of body req out tok n c i] body c mint tier assms(3) show thesis by (auto simp: tokenDeps_def named_rows_def)
qed

text \<open>
  C8. The service accepts its own tokens, and for the right tenant: once it serves, a token that the exchange
  endpoint answers verifies against the key set the service publishes, from the moment it was minted
  to 45 minutes later; the claims name the tenant that owns the client id the request carried and the
  install the control plane keeps for the device the request described, and the trust tier is 1. Startup, key publication, exchange, minting and
  verification fit together.
\<close>

theorem service_accepts_own_tokens:
  assumes "startup E st = (Inr cfg, st')" "signing_wf (sv_db st)" "named_rows (sv_db st')" "m_kid (cf_minter cfg) \<noteq> []"
    and "PublicJWKS JL Executed (sv_db st') = Inr s" "imports_ed25519 JL"
    and "LookupKeyID X = first_kid" "jwk_Fetch X (v_url (cf_verifier cfg)) later = Some s"
    and "key_pairs_match (se_signer E) X (sv_db st')"
    and "NewToken (tokenDeps (se_signer E) (cf_minter cfg) R e (sv_db st')) rq now \<lparr>tw_redis = r, tw_db = sv_db st'\<rparr> = (rs, w')"
    and "rs_Code rs = 200" "0 \<le> now" "now \<le> later" "later \<le> now + 45 * Minute"
  shows "\<exists>tok n out body req c i. readBody (xe_gzip e) rq = Inr body \<and> xe_Unmarshal e body = Some req \<and> rs_Body rs = RawBody out \<and>
    xe_Marshal e \<lparr>tr_AccessToken = tok, tr_ExpiresIn = n, tr_TrustTier = 1\<rparr> = Some out \<and>
    c \<in> set (db_client_ids (sv_db st')) \<and> cl_client_id c = t_ClientId req \<and> cl_revoked_at c = None \<and>
    install_of (tw_db w') (cl_tenant_id c, Device (deviceKey req)) = Some i \<and>
    fst (Verify X (''Bearer '' @ tok) later (cf_verifier cfg)) =
      Inr \<lparr>c_TenantID = cl_tenant_id c, c_InstallID = i, c_Scope = ''write:events'', c_TrustTier = 1\<rparr>"
proof -
  have "0 \<le> later" using assms(12,13) by simp
  obtain pk v' where k: "key X (m_kid (cf_minter cfg)) later (cf_verifier cfg) = (Inr pk, v')"
    "signs_for (se_signer E) X (m_key (cf_minter cfg)) pk" "v_issuer (cf_verifier cfg) = m_issuer (cf_minter cfg)"
    "v_audience (cf_verifier cfg) = m_audience (cf_minter cfg)" "m_ttl (cf_minter cfg) = 45 * Minute"
    by (rule served_key [OF assms(1,2,4-9) \<open>0 \<le> later\<close>])
  show ?thesis
  proof (rule served_exchange [OF assms(10,11,3)])
    fix body req c i tok n out
    assume x: "readBody (xe_gzip e) rq = Inr body" "xe_Unmarshal e body = Some req" "rs_Body rs = RawBody out" "xe_Marshal e \<lparr>tr_AccessToken = tok, tr_ExpiresIn = n, tr_TrustTier = 1\<rparr> = Some out"
      "c \<in> set (db_client_ids (sv_db st'))" "cl_client_id c = t_ClientId req" "cl_revoked_at c = None" "cl_tenant_id c \<noteq> []"
      "install_of (tw_db w') (cl_tenant_id c, Device (deviceKey req)) = Some i" "i \<noteq> []"
      "Mint (se_signer E) (cf_minter cfg) \<lparr>c_TenantID = cl_tenant_id c, c_InstallID = i, c_Scope = ScopeWriteEvents,
         c_TrustTier = 1\<rparr> now = Inr (tok, n)"
    have "Verify X (''Bearer '' @ tok) later (cf_verifier cfg) = (Inr \<lparr>c_TenantID = cl_tenant_id c, c_InstallID = i,
        c_Scope = ScopeWriteEvents, c_TrustTier = 1\<rparr>, v')"
      by (rule minted_verifies [OF x(11) k(2,3,4,1)]) (use assms(13,14) k(5) x(8,10) in simp_all)
    then have "fst (Verify X (''Bearer '' @ tok) later (cf_verifier cfg)) = Inr \<lparr>c_TenantID = cl_tenant_id c, c_InstallID = i,
        c_Scope = ''write:events'', c_TrustTier = 1\<rparr>"
      by (simp add: ScopeWriteEvents_def)
    with x show ?thesis by blast
  qed
qed

definition live_minter :: Minter where
  "live_minter = \<lparr>m_kid = ''kid-1'', m_key = ''priv'', m_issuer = ''https://issuer.local'', m_audience = ''https://ingest.local'',
     m_ttl = 45 * Minute\<rparr>"

definition live_claims :: Claims where
  "live_claims = \<lparr>c_TenantID = ''t1'', c_InstallID = ''ins_41'', c_Scope = ''write:events'', c_TrustTier = 1\<rparr>"

definition live_signer :: jwx_signer where
  "live_signer = sample_signer\<lparr>jx_Sign := (\<lambda>h k b. if h = headers_of live_minter \<and> b = token_of live_minter live_claims 0
     then Some ''tok'' else None)\<rparr>"

definition live_reader :: jwx where
  "live_reader = sample_reader\<lparr>jwt_Parse := (\<lambda>_ _. Some (decoded (token_of live_minter live_claims 0)))\<rparr>"

definition live_exchange :: exchange_env where
  "live_exchange = \<lparr>xe_pg_resolve = Executed, xe_pg_issue = Executed, xe_rand_install = Some ''A'', xe_rand_challenge = None,
     xe_rate_net = Answered 0, xe_challenge_net = Answered 0, xe_gzip = (\<lambda>_. None),
     xe_Unmarshal = (\<lambda>_. Some \<lparr>t_ClientId = ''c1'', t_Platform = ''ios'', t_Attestation = [], t_Challenge = [], t_DeviceHint = ''h''\<rparr>),
     xe_Marshal = (\<lambda>r. Some (tr_AccessToken r))\<rparr>"

definition live_db :: control_db where
  "live_db = sample_db\<lparr>db_signing_keys := [\<lparr>sg_kid = ''kid-1'', sg_public_key = ''pub'', sg_private_key = ''priv'',
     sg_active = True, sg_retired_at = None\<rparr>]\<rparr>"

lemma live_startup:
  obtains cfg st' where "startup (sample_startup\<lparr>se_signer := live_signer\<rparr>) cold_state = (Inr cfg, st')" "sv_db st' = live_db"
    "cf_minter cfg = live_minter"
  using that sample_migrations by (simp add: startup_evals live_signer_def live_db_def live_minter_def)

lemma live_exchange_runs:
  obtains rs w' where "NewToken (tokenDeps live_signer live_minter mem_redis live_exchange live_db) post 0
      \<lparr>tw_redis = Map.empty, tw_db = live_db\<rparr> = (rs, w')" "rs_Code rs = 200" "rs_Body rs = RawBody ''tok''"
proof -
  have hex: "hex_EncodeToString ''A'' = ''41''" by code_simp
  obtain r' where rate: "AllowClient mem_redis (Answered 0) ''rl:token:c1'' 30 Minute Map.empty = (Inr True, r')"
    by (rule mem.AllowClient_counts [of Map.empty 0 "''rl:token:c1''" 0 Minute 30])
      (simp_all add: counter_of_def mem_view_def live_at_def whole_seconds_def)
  have spent: "Consume R net c p [] r = (False, r)" for R :: "keyspace redis" and net c p r
    by (simp add: Consume_def)
  have mint: "Mint live_signer live_minter live_claims 0 = Inr (''tok'', 2700)"
    by (simp add: Mint_def Let_def live_signer_def live_minter_def sample_signer_def whole_seconds_def)
  show thesis
    using that mint
    by (simp add: NewToken_def post_body tokenDeps_def live_exchange_def client_ceiling_def tokenRatePerMinute_def
        tokenRateWindow_def rate assign_tier_def spent ResolveTenant_def live_db_def install_evals hex mint_for_def
        live_claims_def ScopeWriteEvents_def)
qed

theorem service_accepts_own_tokens_witness:
  "\<exists>cfg st' rs w'. startup (sample_startup\<lparr>se_signer := live_signer\<rparr>) cold_state = (Inr cfg, st') \<and>
     NewToken (tokenDeps live_signer (cf_minter cfg) mem_redis live_exchange (sv_db st')) post 0
       \<lparr>tw_redis = Map.empty, tw_db = sv_db st'\<rparr> = (rs, w') \<and> rs_Body rs = RawBody ''tok'' \<and>
     (\<exists>i. fst (Verify live_reader ''Bearer tok'' (40 * Minute) (cf_verifier cfg)) =
        Inr \<lparr>c_TenantID = ''t1'', c_InstallID = i, c_Scope = ''write:events'', c_TrustTier = 1\<rparr>)"
proof -
  let ?E = "sample_startup\<lparr>se_signer := live_signer\<rparr>"
  obtain cfg st' where up: "startup ?E cold_state = (Inr cfg, st')" "sv_db st' = live_db" "cf_minter cfg = live_minter"
    by (rule live_startup)
  obtain rs w' where x: "NewToken (tokenDeps live_signer live_minter mem_redis live_exchange live_db) post 0
      \<lparr>tw_redis = Map.empty, tw_db = live_db\<rparr> = (rs, w')" "rs_Code rs = 200" "rs_Body rs = RawBody ''tok''"
    by (rule live_exchange_runs)
  have E: "se_signer ?E = live_signer" by simp
  have jwks: "PublicJWKS plain_jwk_lib Executed live_db = Inr [sample_key]"
    by (simp add: PublicJWKS_def plain_jwk_lib_def live_db_def sample_key_def published_def)
  have ok: "signing_wf (sv_db cold_state)" "named_rows live_db" "m_kid live_minter \<noteq> []" "imports_ed25519 plain_jwk_lib"
      "LookupKeyID live_reader = first_kid" "jwk_Fetch live_reader (v_url (cf_verifier cfg)) (40 * Minute) = Some [sample_key]"
    by (simp_all add: cold_state_def signing_wf_def sample_db_def named_rows_def live_db_def live_minter_def
        imports_ed25519_def plain_jwk_lib_def live_reader_def sample_reader_def)
  have pair: "key_pairs_match live_signer live_reader live_db"
    by (simp add: key_pairs_match_def live_db_def signs_for_def live_signer_def live_reader_def sample_reader_def headers_of_def
        TokenType_def live_minter_def compact_text_def plain_char_def ascii_space_def)
  from service_accepts_own_tokens [OF up(1) ok(1), of plain_jwk_lib "[sample_key]" live_reader "40 * Minute" mem_redis live_exchange
      post 0 Map.empty rs w'] ok jwks pair x up(2,3)
  obtain c i where "c \<in> set (db_client_ids live_db)"
    "fst (Verify live_reader (''Bearer '' @ ''tok'') (40 * Minute) (cf_verifier cfg)) =
      Inr \<lparr>c_TenantID = cl_tenant_id c, c_InstallID = i, c_Scope = ''write:events'', c_TrustTier = 1\<rparr>"
    by (auto simp: E live_exchange_def)
  with up x show ?thesis by (auto simp: live_db_def sample_db_def)
qed

section \<open>The exchange is available\<close>

text \<open>
  C12. A well-formed exchange is answered whenever the systems it needs are up: a readable request whose
  client id is live, with fewer than 30 exchanges of this client in the current minute, gets a token,
  whatever platform, attestation, challenge and device hint it carries, and also when the challenge
  store does not answer: a missing or failed attestation never locks a device out.
\<close>

theorem healthy_exchange_is_answered:
  assumes "readBody (xe_gzip e) rq = Inr body" "xe_Unmarshal e body = Some req"
    and "xe_pg_resolve e = Executed" "xe_pg_issue e = Executed" "ResolveTenant Executed db (t_ClientId req) = Inr tid"
    and "tid \<in> set (map tn_tenant_id (db_tenants db))" "xe_rand_install e = Some raw"
    and "''ins_'' @ hex_EncodeToString raw \<notin> set (map in_install_id (db_installs db))"
    and "redis_server R view" "xe_rate_net e = Answered t"
    and "counter_of (view r t (''rl:token:'' @ t_ClientId req)) = Some n" "0 \<le> n" "n < 30"
    and "signs_all J" "\<And>resp. xe_Marshal e resp \<noteq> None"
  shows "\<exists>rs w'. NewToken (tokenDeps J m R e db) rq now \<lparr>tw_redis = r, tw_db = db\<rparr> = (rs, w') \<and> rs_Code rs = 200"
proof -
  let ?D = "tokenDeps J m R e db" and ?k = "''rl:token:'' @ t_ClientId req"
  have bounds: "n < 2 ^ 62" "0 < whole_seconds Minute" using assms(13) by (simp_all add: whole_seconds_def)
  obtain r1 where "AllowClient R (Answered t) ?k 30 Minute r = (Inr (n + 1 \<le> 30), r1)"
    using redis_server.AllowClient_answers [OF assms(9), OF assms(11,12) bounds] by blast
  with assms(10,13) have ceiling: "client_ceiling ?D ?k r = (None, r1)"
    by (simp add: client_ceiling_def tokenDeps_def tokenRatePerMinute_def tokenRateWindow_def)
  obtain subject tier r2 where tier: "assign_tier ?D req r1 = ((subject, tier), r2)" by (metis prod.exhaust)
  obtain i db' where "IssueInstall (Some raw) Executed tid (t_Platform req) subject (deviceKey req) tier db = (Inr i, db')"
    using IssueInstall_up [OF assms(6,8)] by blast
  moreover have "rs_Code (mint_for ?D tid i tier now) = 200"
    using assms(14,15) by (intro mint_for_up) (simp_all add: tokenDeps_def)
  moreover have "td_ResolveTenant ?D (t_ClientId req) = Some tid" "td_gzip ?D = xe_gzip e" "td_Unmarshal ?D = xe_Unmarshal e"
      "td_IssueInstall ?D = IssueInstall (Some raw) Executed"
    using assms(3-5,7) by (simp_all add: tokenDeps_def)
  ultimately show ?thesis using assms(1,2) ceiling tier by (auto simp: NewToken_def)
qed

definition ready_signer :: jwx_signer where
  "ready_signer = \<lparr>jx_Build = (\<lambda>_. True), jx_HdrSet = (\<lambda>_ _. True), jx_Import = Some, jx_Sign = (\<lambda>_ _ _. Some ''tok'')\<rparr>"

theorem healthy_exchange_is_answered_witness:
  "\<exists>rs w'. NewToken (tokenDeps ready_signer live_minter mem_redis 
       (live_exchange\<lparr>xe_challenge_net := Refused\<rparr>) live_db) post 0 \<lparr>tw_redis = Map.empty, tw_db = live_db\<rparr> = (rs, w') \<and> rs_Code rs = 200"
proof -
  let ?e = "live_exchange\<lparr>xe_challenge_net := Refused\<rparr>"
  let ?req = "\<lparr>t_ClientId = ''c1'', t_Platform = ''ios'', t_Attestation = [], t_Challenge = [], t_DeviceHint = ''h''\<rparr>"
  show ?thesis
  proof (rule healthy_exchange_is_answered [of ?e post "''x''" ?req live_db "''t1''" "''A''" mem_redis mem_view 0 Map.empty 0])
    show "readBody (xe_gzip ?e) post = Inr ''x''" by (simp add: post_body)
    show "redis_server mem_redis mem_view" by (rule mem.redis_server_axioms)
    show "signs_all ready_signer" by (simp add: signs_all_def ready_signer_def)
  qed (simp_all add: live_exchange_def ResolveTenant_def live_db_def sample_db_def counter_of_def mem_view_def live_at_def)
qed

end
